theory Spec2Isabelle
  imports Main "HOL-Library.Word" "HOL-Library.AList"
begin

section \<open>Strings and the Arabic regular expression\<close>

text \<open>
  A JavaScript string is a sequence of 16-bit code units; the regular expression of
  \<^verbatim>\<open>main.ts\<close> has no \<^verbatim>\<open>u\<close> flag, so it works on code units.
  \<open>lit\<close> writes an ASCII literal of the source as such a string.
\<close>

type_synonym jstring = "16 word list"

definition lit :: "string \<Rightarrow> jstring" where
  "lit s = map of_char s"

text \<open>
  \<^verbatim>\<open>arabicRegex = /([A]+([A\W\d]+)*)/g\<close>, where \<open>A\<close> stands for the five ranges
  U+0600 to U+06FF, U+0750 to U+077F, U+08A0 to U+08FF, U+FB50 to U+FDFF and U+FE70 to
  U+FEFF. \<open>isArabic\<close> is the first character class and \<open>isTail\<close> the second one;
  \<^verbatim>\<open>\W\<close> is the complement of \<^verbatim>\<open>[A-Za-z0-9_]\<close> and \<^verbatim>\<open>\d\<close> is \<^verbatim>\<open>[0-9]\<close>.
\<close>

definition isArabic :: "16 word \<Rightarrow> bool" where
  "isArabic c \<longleftrightarrow>
     (0x0600 \<le> c \<and> c \<le> 0x06FF) \<or> (0x0750 \<le> c \<and> c \<le> 0x077F) \<or>
     (0x08A0 \<le> c \<and> c \<le> 0x08FF) \<or> (0xFB50 \<le> c \<and> c \<le> 0xFDFF) \<or>
     (0xFE70 \<le> c \<and> c \<le> 0xFEFF)"

definition isDigit :: "16 word \<Rightarrow> bool" where
  "isDigit c \<longleftrightarrow> 0x30 \<le> c \<and> c \<le> 0x39"

definition isWordChar :: "16 word \<Rightarrow> bool" where
  "isWordChar c \<longleftrightarrow>
     (0x61 \<le> c \<and> c \<le> 0x7A) \<or> (0x41 \<le> c \<and> c \<le> 0x5A) \<or> isDigit c \<or> c = 0x5F"

definition isTail :: "16 word \<Rightarrow> bool" where
  "isTail c \<longleftrightarrow> isArabic c \<or> \<not> isWordChar c \<or> isDigit c"

text \<open>
  \<open>plus p\<close> is the greedy quantifier \<^verbatim>\<open>[p]+\<close> at the start of a string: the longest
  non-empty prefix of characters in the class, and what follows it. \<open>starPlus p\<close> is
  \<^verbatim>\<open>([p]+)*\<close>: it repeats \<open>plus p\<close> while it matches and returns the text matched,
  the capture of the group's last iteration (or none) and the rest. No alternative of
  the expression can fail after these choices, so the matcher never backtracks.
\<close>

definition plus :: "(16 word \<Rightarrow> bool) \<Rightarrow> jstring \<Rightarrow> (jstring \<times> jstring) option" where
  "plus p s = (case takeWhile p s of [] \<Rightarrow> None | m \<Rightarrow> Some (m, dropWhile p s))"

lemma plus_SomeD: "plus p s = Some (m, r) \<Longrightarrow> m \<noteq> [] \<and> s = m @ r \<and> list_all p m"
  by (auto simp: plus_def list_all_iff split: list.splits dest: set_takeWhileD)

function starPlus :: "(16 word \<Rightarrow> bool) \<Rightarrow> jstring \<Rightarrow> jstring \<times> jstring option \<times> jstring" where
  "starPlus p s =
     (case plus p s of
        None \<Rightarrow> ([], None, s)
      | Some (m, r) \<Rightarrow>
          (case starPlus p r of
             (ms, g, r') \<Rightarrow> (m @ ms, (case g of None \<Rightarrow> Some m | Some l \<Rightarrow> Some l), r')))"
  by pat_completeness auto
termination
  by (relation "measure (\<lambda>(p, s). length s)") (auto dest!: plus_SomeD)

declare starPlus.simps [simp del]

text \<open>
  \<open>arabicRegex_at s\<close> matches the whole expression at the start of \<open>s\<close>: the text
  matched (which is also capture 1), capture 2 and the rest of the string.
  \<open>arabicRegex_exec s\<close> is the search for the leftmost match: the text skipped before
  it, then the same three results.
\<close>

definition arabicRegex_at :: "jstring \<Rightarrow> (jstring \<times> jstring option \<times> jstring) option" where
  "arabicRegex_at s =
     (case plus isArabic s of
        None \<Rightarrow> None
      | Some (a, r) \<Rightarrow> (case starPlus isTail r of (t, g, r') \<Rightarrow> Some (a @ t, g, r')))"

fun arabicRegex_exec ::
  "jstring \<Rightarrow> (jstring \<times> jstring \<times> jstring option \<times> jstring) option" where
  "arabicRegex_exec [] = None"
| "arabicRegex_exec (c # s) =
     (case arabicRegex_at (c # s) of
        Some (m, g, r) \<Rightarrow> Some ([], m, g, r)
      | None \<Rightarrow>
          (case arabicRegex_exec s of
             None \<Rightarrow> None
           | Some (pre, m, g, r) \<Rightarrow> Some (c # pre, m, g, r)))"

lemma starPlus_split: "starPlus p s = (t, g, r) \<Longrightarrow> s = t @ r"
proof (induction p s arbitrary: t g r rule: starPlus.induct)
  case (1 p s)
  show ?case
  proof (cases "plus p s")
    case None
    with "1.prems" show ?thesis by (simp add: starPlus.simps [of p s])
  next
    case (Some mr)
    obtain m r0 where mr: "mr = (m, r0)" by (cases mr)
    obtain ms g0 r1 where sp: "starPlus p r0 = (ms, g0, r1)" by (cases "starPlus p r0")
    from "1.IH" [OF Some [unfolded mr] refl sp] have "r0 = ms @ r1" by simp
    moreover from Some mr have "s = m @ r0" by (auto dest: plus_SomeD)
    moreover from "1.prems" Some mr sp have "t = m @ ms" "r = r1"
      by (simp_all add: starPlus.simps [of p s])
    ultimately show ?thesis by simp
  qed
qed

lemma arabicRegex_at_SomeD: "arabicRegex_at s = Some (m, g, r) \<Longrightarrow> m \<noteq> [] \<and> s = m @ r"
  by (auto simp: arabicRegex_at_def split: option.splits prod.splits
      dest!: plus_SomeD starPlus_split)

lemma arabicRegex_exec_SomeD:
  "arabicRegex_exec s = Some (pre, m, g, r) \<Longrightarrow> m \<noteq> [] \<and> s = pre @ m @ r"
  by (induction s arbitrary: pre) (auto split: option.splits dest!: arabicRegex_at_SomeD)

text \<open>
  \<^verbatim>\<open>String.prototype.match\<close> with a global expression starts at index 0 whatever the
  expression's \<^verbatim>\<open>lastIndex\<close> was, collects every match from left to right, each
  search resuming where the previous match ended, and returns \<^verbatim>\<open>null\<close> when there is
  none.
\<close>

function matchAll :: "jstring \<Rightarrow> jstring list" where
  "matchAll s =
     (case arabicRegex_exec s of None \<Rightarrow> [] | Some (pre, m, g, r) \<Rightarrow> m # matchAll r)"
  by pat_completeness auto
termination
  by (relation "measure length") (auto dest!: arabicRegex_exec_SomeD)

declare matchAll.simps [simp del]

definition match :: "jstring \<Rightarrow> jstring list option" where
  "match s = (case matchAll s of [] \<Rightarrow> None | ms \<Rightarrow> Some ms)"

section \<open>The document tree\<close>

text \<open>
  The inline style of an element, as far as \<^verbatim>\<open>main.ts\<close> writes it; the empty string
  is a property that is not set.
\<close>

record css =
  fontSize :: jstring
  lineHeight :: jstring
  fontFamily :: jstring

record element =
  nodeName :: jstring
  attributes :: "(jstring \<times> jstring) list"
  style :: css
  isContentEditable :: bool

text \<open>
  A node is a text node, a comment, an element with its children, or a parent that is
  not an element (a document or a document fragment). \<open>nodeName\<close> is the name as the
  browser reports it, in upper case for an HTML element; \<open>isContentEditable\<close> is what
  the browser reports for the element, its own setting or one inherited from an
  ancestor.
\<close>

datatype node =
    Text jstring
  | Comment jstring
  | Element element "node list"
  | Fragment "node list"

fun nodeValue :: "node \<Rightarrow> jstring option" where
  "nodeValue (Text s) = Some s"
| "nodeValue (Comment s) = Some s"
| "nodeValue (Element e cs) = None"
| "nodeValue (Fragment cs) = None"

text \<open>
  \<^verbatim>\<open>hasArabicScript(node) = !!node.nodeValue && !!(node.nodeValue.match(arabicRegex))\<close>:
  \<^verbatim>\<open>null\<close> and the empty string are falsy; an array of matches is truthy.
\<close>

definition hasArabicScript :: "node \<Rightarrow> bool" where
  "hasArabicScript n =
     (case nodeValue n of
        None \<Rightarrow> False
      | Some s \<Rightarrow> s \<noteq> [] \<and> match s \<noteq> None)"

section \<open>Script Classifier\<close>

lemma arabicRegex_at_Cons_None_iff: "arabicRegex_at (c # s) = None \<longleftrightarrow> \<not> isArabic c"
  by (auto simp: arabicRegex_at_def plus_def split: option.splits prod.splits list.splits)

lemma arabicRegex_exec_None_iff:
  "arabicRegex_exec s = None \<longleftrightarrow> (\<forall>c\<in>set s. \<not> isArabic c)"
proof (induction s)
  case Nil
  show ?case by simp
next
  case (Cons c s)
  show ?case
  proof (cases "arabicRegex_at (c # s)")
    case None
    with Cons show ?thesis
      using arabicRegex_at_Cons_None_iff [of c s] by (auto split: option.splits)
  next
    case (Some x)
    then have "isArabic c" using arabicRegex_at_Cons_None_iff [of c s] by auto
    with Some show ?thesis by (auto split: prod.splits)
  qed
qed

lemma match_None_iff: "match s = None \<longleftrightarrow> (\<forall>c\<in>set s. \<not> isArabic c)"
  unfolding match_def arabicRegex_exec_None_iff [symmetric]
  by (subst matchAll.simps) (auto split: option.splits list.splits)

text \<open>
  Claim C1. For every string \<open>s\<close>, \<open>hasArabicScript\<close> applied to a node whose value is
  \<open>s\<close> is true if and only if \<open>s\<close> contains at least one code unit in the ranges
  U+0600 to U+06FF, U+0750 to U+077F, U+08A0 to U+08FF, U+FB50 to U+FDFF or U+FE70 to
  U+FEFF. In particular the empty string and strings without such a character never
  match.
\<close>

theorem hasArabicScript_iff:
  "nodeValue n = Some s \<Longrightarrow>
   hasArabicScript n \<longleftrightarrow>
     (\<exists>c\<in>set s. (0x0600 \<le> c \<and> c \<le> 0x06FF) \<or> (0x0750 \<le> c \<and> c \<le> 0x077F) \<or>
                 (0x08A0 \<le> c \<and> c \<le> 0x08FF) \<or> (0xFB50 \<le> c \<and> c \<le> 0xFDFF) \<or>
                 (0xFE70 \<le> c \<and> c \<le> 0xFEFF))"
proof -
  assume v: "nodeValue n = Some s"
  have "hasArabicScript n \<longleftrightarrow> s \<noteq> [] \<and> (\<exists>c\<in>set s. isArabic c)"
    using v by (simp add: hasArabicScript_def match_None_iff)
  also have "\<dots> \<longleftrightarrow> (\<exists>c\<in>set s. isArabic c)"
    by auto
  finally show ?thesis
    by (simp add: isArabic_def)
qed

theorem hasArabicScript_iff_witness:
  "nodeValue (Text (lit ''hi '' @ [0x0645, 0x0631])) = Some (lit ''hi '' @ [0x0645, 0x0631]) \<and>
   hasArabicScript (Text (lit ''hi '' @ [0x0645, 0x0631])) \<and>
   \<not> hasArabicScript (Text (lit ''  '')) \<and>
   \<not> hasArabicScript (Text [])"
  using hasArabicScript_iff [of "Text (lit ''hi '' @ [0x0645, 0x0631])" "lit ''hi '' @ [0x0645, 0x0631]"]
    hasArabicScript_iff [of "Text (lit ''  '')" "lit ''  ''"]
    hasArabicScript_iff [of "Text []" "[]"]
  by (simp add: lit_def)

section \<open>Elements, attributes and the document\<close>

text \<open>
  The attributes of an element are an association list; \<^verbatim>\<open>setAttribute\<close> replaces the
  value of an attribute that is present and adds the attribute otherwise. A new element
  has no attributes, no inline style and is not editable.
\<close>

definition getAttribute :: "element \<Rightarrow> jstring \<Rightarrow> jstring option" where
  "getAttribute e name = map_of (attributes e) name"

definition setAttribute :: "jstring \<Rightarrow> jstring \<Rightarrow> element \<Rightarrow> element" where
  "setAttribute name v e = e\<lparr>attributes := AList.update name v (attributes e)\<rparr>"

definition createElement :: "jstring \<Rightarrow> element" where
  "createElement name =
     \<lparr>nodeName = name, attributes = [],
      style = \<lparr>fontSize = [], lineHeight = [], fontFamily = []\<rparr>,
      isContentEditable = False\<rparr>"

text \<open>
  The exceptions that the modelled operations can raise: reading a property of
  \<^verbatim>\<open>null\<close>, and \<^verbatim>\<open>removeChild\<close> of a node that is not a child.
\<close>

datatype error = TypeError | NotFoundError

text \<open>The document: the children of its \<^verbatim>\<open>head\<close> and of its \<^verbatim>\<open>body\<close>.\<close>

record document =
  head :: "node list"
  body :: "node list"

subsection \<open>The processed-document marker\<close>

definition notifyDocument :: "document \<Rightarrow> document" where
  "notifyDocument doc =
     (let meta = setAttribute (lit ''wudooh'') (lit ''true'') (createElement (lit ''META''))
      in doc\<lparr>head := head doc @ [Element meta []]\<rparr>)"

fun isMetaMarker :: "node \<Rightarrow> bool" where
  "isMetaMarker (Element e cs) \<longleftrightarrow>
     nodeName e = lit ''META'' \<and> getAttribute e (lit ''wudooh'') = Some (lit ''true'')"
| "isMetaMarker _ \<longleftrightarrow> False"

lemma markers_notifyDocument:
  "filter isMetaMarker (head (notifyDocument doc)) =
   filter isMetaMarker (head doc) @
     [Element (setAttribute (lit ''wudooh'') (lit ''true'') (createElement (lit ''META''))) []]"
  by (simp add: notifyDocument_def Let_def setAttribute_def createElement_def getAttribute_def)

text \<open>
  Claim C9, as amended. \<open>notifyDocument\<close> does not look for a marker that is already
  there: every call appends one new \<^verbatim>\<open>meta\<close> element with \<^verbatim>\<open>wudooh="true"\<close> to the
  head, so after \<open>n\<close> calls the head holds \<open>n\<close> markers more than before.
\<close>

theorem notifyDocument_adds_marker:
  "length (filter isMetaMarker (head ((notifyDocument ^^ n) doc))) =
   length (filter isMetaMarker (head doc)) + n"
  by (induction n) (simp_all add: markers_notifyDocument)

text \<open>
  Claim C9 as stated, that a second call adds no second marker, fails on the empty
  document: two calls leave two markers.
\<close>

theorem notifyDocument_twice_counterexample:
  "\<not> length (filter isMetaMarker
        (head (notifyDocument (notifyDocument \<lparr>head = [], body = []\<rparr>)))) \<le> 1"
  by (simp add: markers_notifyDocument)

subsection \<open>The style element of the custom fonts\<close>

record CustomFont =
  fontName :: jstring
  url :: "jstring option"

text \<open>
  Modelled from the spec: \<^verbatim>\<open>get\<close> is a helper of \<^verbatim>\<open>shared.ts\<close>, which is absent. The
  spec has the prior style block found by its id and replaced, so \<open>get\<close> is taken to be
  \<^verbatim>\<open>document.getElementById\<close>: the first element, in document order, whose \<^verbatim>\<open>id\<close>
  attribute is the given one. The result says where the element is: under the head or
  under the body, at which path of child indices.
\<close>

datatype place = InHead "nat list" | InBody "nat list"

fun getElementById :: "jstring \<Rightarrow> node \<Rightarrow> nat list option"
  and getElementByIds :: "jstring \<Rightarrow> nat \<Rightarrow> node list \<Rightarrow> nat list option" where
  "getElementById i (Text s) = None"
| "getElementById i (Comment s) = None"
| "getElementById i (Element e cs) =
     (if getAttribute e (lit ''id'') = Some i then Some [] else getElementByIds i 0 cs)"
| "getElementById i (Fragment cs) = getElementByIds i 0 cs"
| "getElementByIds i k [] = None"
| "getElementByIds i k (c # cs) =
     (case getElementById i c of
        Some p \<Rightarrow> Some (k # p)
      | None \<Rightarrow> getElementByIds i (Suc k) cs)"

definition get :: "document \<Rightarrow> jstring \<Rightarrow> place option" where
  "get doc i =
     (case getElementByIds i 0 (head doc) of
        Some p \<Rightarrow> Some (InHead p)
      | None \<Rightarrow> map_option InBody (getElementByIds i 0 (body doc)))"

text \<open>
  The content of a \<^verbatim>\<open>style\<close> element is raw text: reading \<^verbatim>\<open>innerHTML\<close> gives the
  text of its text children as it is, and writing it leaves one text child, or none for
  the empty string.
\<close>

fun innerHTML :: "node \<Rightarrow> jstring" where
  "innerHTML (Element e cs) = concat (map (\<lambda>c. case c of Text s \<Rightarrow> s | _ \<Rightarrow> []) cs)"
| "innerHTML _ = []"

fun set_innerHTML :: "jstring \<Rightarrow> node \<Rightarrow> node" where
  "set_innerHTML s (Element e cs) = Element e (if s = [] then [] else [Text s])"
| "set_innerHTML s n = n"

text \<open>
  The rule written for one font. \<^verbatim>\<open>if (fontUrl)\<close> is the truthiness test: it fails for
  \<^verbatim>\<open>null\<close> and for the empty string.
\<close>

definition injectedCss :: "CustomFont \<Rightarrow> jstring" where
  "injectedCss customFont =
     (let css = lit ''@font-face { font-family: '' @ [0x27] @ fontName customFont @ [0x27] @
                lit ''; src: local('' @ [0x27] @ fontName customFont @ [0x27] @ lit '')'';
          css = (case url customFont of
                   None \<Rightarrow> css
                 | Some fontUrl \<Rightarrow>
                     if fontUrl \<noteq> []
                     then css @ lit '', url('' @ [0x27] @ fontUrl @ [0x27] @ lit '')''
                     else css)
      in css @ lit ''; }'' @ [0x0A])"

definition customFontsStyleId :: jstring where
  "customFontsStyleId = lit ''wudoohCustomFontsStyle''"

text \<open>
  \<open>injectCustomFonts\<close>: the element that \<open>get\<close> finds is removed from the head, which
  raises \<open>NotFoundError\<close> when it is not a child of the head (its content is emptied
  first, which no longer shows once it is removed); then a new \<^verbatim>\<open>style\<close> element gets
  the id, the rules are appended to its content font by font, and it is appended to the
  head.
\<close>

definition injectCustomFonts :: "document \<Rightarrow> CustomFont list \<Rightarrow> error + document" where
  "injectCustomFonts doc customFonts =
     (let removed =
            (case get doc customFontsStyleId of
               None \<Rightarrow> Inr doc
             | Some (InHead [k]) \<Rightarrow> Inr (doc\<lparr>head := take k (head doc) @ drop (Suc k) (head doc)\<rparr>)
             | Some _ \<Rightarrow> Inl NotFoundError)
      in case removed of
           Inl err \<Rightarrow> Inl err
         | Inr doc1 \<Rightarrow>
             (let customFontsStyle =
                    Element (setAttribute (lit ''id'') customFontsStyleId (createElement (lit ''STYLE''))) [];
                  customFontsStyle =
                    fold (\<lambda>customFont st. set_innerHTML (innerHTML st @ injectedCss customFont) st)
                      customFonts customFontsStyle
              in Inr (doc1\<lparr>head := head doc1 @ [customFontsStyle]\<rparr>)))"

text \<open>
  What the claim is measured against: the number of elements of a subtree that carry an
  id, the style element that a list of fonts should produce, and the invariant that the
  id occurs at most once among the children of the head and nowhere outside them.
\<close>

fun hasId :: "jstring \<Rightarrow> node \<Rightarrow> bool" where
  "hasId i (Element e cs) \<longleftrightarrow> getAttribute e (lit ''id'') = Some i"
| "hasId i _ \<longleftrightarrow> False"

fun countId :: "jstring \<Rightarrow> node \<Rightarrow> nat"
  and countIds :: "jstring \<Rightarrow> node list \<Rightarrow> nat" where
  "countId i (Text s) = 0"
| "countId i (Comment s) = 0"
| "countId i (Element e cs) =
     (if getAttribute e (lit ''id'') = Some i then 1 else 0) + countIds i cs"
| "countId i (Fragment cs) = countIds i cs"
| "countIds i [] = 0"
| "countIds i (c # cs) = countId i c + countIds i cs"

definition onlyInHead :: "jstring \<Rightarrow> document \<Rightarrow> bool" where
  "onlyInHead i doc \<longleftrightarrow>
     countIds i (body doc) = 0 \<and>
     list_all (\<lambda>c. hasId i c \<or> countId i c = 0) (head doc) \<and>
     length (filter (hasId i) (head doc)) \<le> 1"

definition customFontsStyle :: "CustomFont list \<Rightarrow> node" where
  "customFontsStyle fonts =
     set_innerHTML (concat (map injectedCss fonts))
       (Element (setAttribute (lit ''id'') customFontsStyleId (createElement (lit ''STYLE''))) [])"

lemma getElementById_None:
  "countId i n = 0 \<Longrightarrow> getElementById i n = None"
  "countIds i cs = 0 \<Longrightarrow> getElementByIds i k cs = None"
  by (induction i n and i k cs rule: getElementById_getElementByIds.induct) auto

lemma getElementById_hasId: "hasId i n \<Longrightarrow> getElementById i n = Some []"
  by (cases n) auto

lemma getElementByIds_top_None:
  "list_all (\<lambda>c. hasId i c \<or> countId i c = 0) cs \<Longrightarrow> filter (hasId i) cs = [] \<Longrightarrow>
   getElementByIds i k cs = None"
  by (induction cs arbitrary: k) (auto simp: getElementById_None split: if_splits)

lemma getElementByIds_top_Some:
  "list_all (\<lambda>c. hasId i c \<or> countId i c = 0) cs \<Longrightarrow> filter (hasId i) cs \<noteq> [] \<Longrightarrow>
   \<exists>j < length cs. getElementByIds i k cs = Some [k + j] \<and> hasId i (cs ! j) \<and>
      filter (hasId i) (take j cs) = []"
proof (induction cs arbitrary: k)
  case Nil
  then show ?case by simp
next
  case (Cons c cs)
  show ?case
  proof (cases "hasId i c")
    case True
    then show ?thesis by (intro exI [of _ 0]) (simp add: getElementById_hasId)
  next
    case False
    with Cons.prems have c0: "getElementById i c = None" and rest: "filter (hasId i) cs \<noteq> []"
      and all: "list_all (\<lambda>c. hasId i c \<or> countId i c = 0) cs"
      by (auto simp: getElementById_None)
    from Cons.IH [OF all rest, of "Suc k"] obtain j where j: "j < length cs"
      "getElementByIds i (Suc k) cs = Some [Suc k + j]" "hasId i (cs ! j)"
      "filter (hasId i) (take j cs) = []" by blast
    show ?thesis
      using j c0 False by (intro exI [of _ "Suc j"]) simp
  qed
qed


lemma fold_innerHTML:
  "fold (\<lambda>customFont st. set_innerHTML (innerHTML st @ injectedCss customFont) st) fonts
     (set_innerHTML t (Element e [])) =
   set_innerHTML (t @ concat (map injectedCss fonts)) (Element e [])"
proof (induction fonts arbitrary: t)
  case Nil
  show ?case by simp
next
  case (Cons f fonts)
  have "fold (\<lambda>customFont st. set_innerHTML (innerHTML st @ injectedCss customFont) st)
          (f # fonts) (set_innerHTML t (Element e [])) =
        fold (\<lambda>customFont st. set_innerHTML (innerHTML st @ injectedCss customFont) st)
          fonts (set_innerHTML (t @ injectedCss f) (Element e []))"
    by simp
  also have "\<dots> = set_innerHTML ((t @ injectedCss f) @ concat (map injectedCss fonts)) (Element e [])"
    by (rule Cons.IH)
  finally show ?case by simp
qed

lemma fold_customFontsStyle:
  "fold (\<lambda>customFont st. set_innerHTML (innerHTML st @ injectedCss customFont) st) fonts
     (Element (setAttribute (lit ''id'') customFontsStyleId (createElement (lit ''STYLE''))) []) =
   customFontsStyle fonts"
  using fold_innerHTML [of fonts "[]"] by (simp add: customFontsStyle_def)

lemma remove_unique:
  "j < length cs \<Longrightarrow> P (cs ! j) \<Longrightarrow> filter P (take j cs) = [] \<Longrightarrow> length (filter P cs) \<le> 1 \<Longrightarrow>
   take j cs @ drop (Suc j) cs = filter (\<lambda>c. \<not> P c) cs"
proof -
  assume j: "j < length cs" and P: "P (cs ! j)" and before: "filter P (take j cs) = []"
    and one: "length (filter P cs) \<le> 1"
  have cs: "cs = take j cs @ cs ! j # drop (Suc j) cs"
    using j by (simp add: id_take_nth_drop)
  have "length (filter P cs) = Suc (length (filter P (drop (Suc j) cs)))"
    by (subst cs) (simp add: before P)
  with one have after: "filter P (drop (Suc j) cs) = []" by simp
  have "filter (\<lambda>c. \<not> P c) cs =
        filter (\<lambda>c. \<not> P c) (take j cs) @ filter (\<lambda>c. \<not> P c) (drop (Suc j) cs)"
    by (subst cs) (simp add: P)
  also have "filter (\<lambda>c. \<not> P c) (take j cs) = take j cs"
    using before by (simp add: filter_empty_conv)
  also have "filter (\<lambda>c. \<not> P c) (drop (Suc j) cs) = drop (Suc j) cs"
    using after by (simp add: filter_empty_conv)
  finally show ?thesis by simp
qed

lemma injectCustomFonts_result:
  assumes "onlyInHead customFontsStyleId doc"
  shows "injectCustomFonts doc fonts =
         Inr (doc\<lparr>head := filter (\<lambda>c. \<not> hasId customFontsStyleId c) (head doc) @ [customFontsStyle fonts]\<rparr>)"
proof (cases "filter (hasId customFontsStyleId) (head doc) = []")
  case True
  with assms have "get doc customFontsStyleId = None"
    by (simp add: get_def onlyInHead_def getElementByIds_top_None getElementById_None)
  moreover from True have "filter (\<lambda>c. \<not> hasId customFontsStyleId c) (head doc) = head doc"
    by (simp add: filter_empty_conv)
  ultimately show ?thesis
    by (simp add: injectCustomFonts_def fold_customFontsStyle)
next
  case False
  with assms obtain j where j: "j < length (head doc)"
    "getElementByIds customFontsStyleId 0 (head doc) = Some [j]" "hasId customFontsStyleId (head doc ! j)"
    "filter (hasId customFontsStyleId) (take j (head doc)) = []"
    using getElementByIds_top_Some [of customFontsStyleId "head doc" 0] by (auto simp: onlyInHead_def)
  then have "get doc customFontsStyleId = Some (InHead [j])"
    by (simp add: get_def)
  moreover from j assms
  have "take j (head doc) @ drop (Suc j) (head doc) = filter (\<lambda>c. \<not> hasId customFontsStyleId c) (head doc)"
    by (intro remove_unique) (simp_all add: onlyInHead_def)
  ultimately show ?thesis
    by (simp add: injectCustomFonts_def fold_customFontsStyle)
qed


lemma hasId_customFontsStyle: "hasId customFontsStyleId (customFontsStyle fonts)"
  by (simp add: customFontsStyle_def setAttribute_def createElement_def getAttribute_def)

lemma countId_customFontsStyle: "countId i (customFontsStyle fonts) \<le> 1"
  by (simp add: customFontsStyle_def)

lemma innerHTML_customFontsStyle: "innerHTML (customFontsStyle fonts) = concat (map injectedCss fonts)"
  by (simp add: customFontsStyle_def)

text \<open>
  Claim C8, as amended. In a document where the id \<^verbatim>\<open>wudoohCustomFontsStyle\<close> occurs at
  most once among the children of the head and nowhere else, \<open>injectCustomFonts\<close>
  returns normally; the head then holds the other children as they were, followed by
  exactly one element with that id, the new \<^verbatim>\<open>style\<close> element, and the same invariant
  holds again, so it holds after every later call. The content of the element is the
  rules of the fonts, one per font, in the order of the list. A rule has the
  \<^verbatim>\<open>url\<close> clause exactly when the font's url is neither \<^verbatim>\<open>null\<close> nor the empty string.
\<close>

theorem injectCustomFonts_one_style:
  assumes "onlyInHead customFontsStyleId doc"
  shows "injectCustomFonts doc fonts =
           Inr (doc\<lparr>head := filter (\<lambda>c. \<not> hasId customFontsStyleId c) (head doc) @ [customFontsStyle fonts]\<rparr>) \<and>
         filter (hasId customFontsStyleId)
           (filter (\<lambda>c. \<not> hasId customFontsStyleId c) (head doc) @ [customFontsStyle fonts]) =
           [customFontsStyle fonts] \<and>
         onlyInHead customFontsStyleId
           (doc\<lparr>head := filter (\<lambda>c. \<not> hasId customFontsStyleId c) (head doc) @ [customFontsStyle fonts]\<rparr>) \<and>
         innerHTML (customFontsStyle fonts) = concat (map injectedCss fonts) \<and>
         (\<forall>f. injectedCss f =
            lit ''@font-face { font-family: '' @ [0x27] @ fontName f @ [0x27] @
            lit ''; src: local('' @ [0x27] @ fontName f @ [0x27] @ lit '')'' @
            (if url f = None \<or> url f = Some [] then []
             else lit '', url('' @ [0x27] @ the (url f) @ [0x27] @ lit '')'') @
            lit ''; }'' @ [0x0A])"
proof (intro conjI allI)
  show "injectCustomFonts doc fonts =
        Inr (doc\<lparr>head := filter (\<lambda>c. \<not> hasId customFontsStyleId c) (head doc) @ [customFontsStyle fonts]\<rparr>)"
    using assms by (rule injectCustomFonts_result)
  have none: "filter (hasId customFontsStyleId) (filter (\<lambda>c. \<not> hasId customFontsStyleId c) (head doc)) = []"
    by (simp add: filter_empty_conv)
  show one: "filter (hasId customFontsStyleId)
          (filter (\<lambda>c. \<not> hasId customFontsStyleId c) (head doc) @ [customFontsStyle fonts]) =
        [customFontsStyle fonts]"
    using none by (simp add: hasId_customFontsStyle)
  show "onlyInHead customFontsStyleId
          (doc\<lparr>head := filter (\<lambda>c. \<not> hasId customFontsStyleId c) (head doc) @ [customFontsStyle fonts]\<rparr>)"
    using assms one unfolding onlyInHead_def
    by (auto simp add: hasId_customFontsStyle list_all_iff)
  show "innerHTML (customFontsStyle fonts) = concat (map injectedCss fonts)"
    by (rule innerHTML_customFontsStyle)
  show "injectedCss f =
          lit ''@font-face { font-family: '' @ [0x27] @ fontName f @ [0x27] @
          lit ''; src: local('' @ [0x27] @ fontName f @ [0x27] @ lit '')'' @
          (if url f = None \<or> url f = Some [] then []
           else lit '', url('' @ [0x27] @ the (url f) @ [0x27] @ lit '')'') @
          lit ''; }'' @ [0x0A]" for f
    by (cases "url f") (simp_all add: injectedCss_def Let_def)
qed

text \<open>
  Claim C8 as stated has the \<^verbatim>\<open>url\<close> clause whenever the url is not \<^verbatim>\<open>null\<close>. A font
  whose url is the empty string has a url that is not \<^verbatim>\<open>null\<close>, and its rule has no
  such clause.
\<close>

theorem injectedCss_empty_url_counterexample:
  "url \<lparr>fontName = lit ''F'', url = Some []\<rparr> \<noteq> None \<and>
   injectedCss \<lparr>fontName = lit ''F'', url = Some []\<rparr> =
     lit ''@font-face { font-family: 'F'; src: local('F'); }'' @ [0x0A]"
  by (simp add: injectedCss_def Let_def lit_def)

theorem injectCustomFonts_one_style_witness:
  "onlyInHead customFontsStyleId
     \<lparr>head = [Element (setAttribute (lit ''id'') customFontsStyleId (createElement (lit ''STYLE'')))
                [Text (lit ''old'')]],
      body = [Text (lit ''page'')]\<rparr> \<and>
   injectCustomFonts
     \<lparr>head = [Element (setAttribute (lit ''id'') customFontsStyleId (createElement (lit ''STYLE'')))
                [Text (lit ''old'')]],
      body = [Text (lit ''page'')]\<rparr>
     [\<lparr>fontName = lit ''F'', url = None\<rparr>, \<lparr>fontName = lit ''G'', url = Some (lit ''u'')\<rparr>] =
   Inr \<lparr>head = [Element (setAttribute (lit ''id'') customFontsStyleId (createElement (lit ''STYLE'')))
                [Text (lit ''@font-face { font-family: 'F'; src: local('F'); }'' @ [0x0A] @
                       lit ''@font-face { font-family: 'G'; src: local('G'), url('u'); }'' @ [0x0A])]],
        body = [Text (lit ''page'')]\<rparr>"
proof -
  have pre: "onlyInHead customFontsStyleId
     \<lparr>head = [Element (setAttribute (lit ''id'') customFontsStyleId (createElement (lit ''STYLE'')))
                [Text (lit ''old'')]],
      body = [Text (lit ''page'')]\<rparr>"
    by (simp add: onlyInHead_def setAttribute_def createElement_def getAttribute_def)
  show ?thesis
    using pre injectCustomFonts_one_style [OF pre,
      of "[\<lparr>fontName = lit ''F'', url = None\<rparr>, \<lparr>fontName = lit ''G'', url = Some (lit ''u'')\<rparr>]"]
    by (simp add: customFontsStyle_def setAttribute_def createElement_def getAttribute_def
        injectedCss_def Let_def lit_def)
qed

section \<open>References into the tree\<close>

text \<open>
  A reference to a node is the root of the tree that holds it and the path of child
  indices from that root to the node. The node at the empty path is the root itself: it
  has no parent, which is how a detached node reads. A path that leads nowhere stands
  for \<^verbatim>\<open>null\<close>.
\<close>

fun childNodes :: "node \<Rightarrow> node list" where
  "childNodes (Text s) = []"
| "childNodes (Comment s) = []"
| "childNodes (Element e cs) = cs"
| "childNodes (Fragment cs) = cs"

fun setChildNodes :: "node list \<Rightarrow> node \<Rightarrow> node" where
  "setChildNodes cs (Element e old) = Element e cs"
| "setChildNodes cs (Fragment old) = Fragment cs"
| "setChildNodes cs n = n"

fun nodeAt :: "node \<Rightarrow> nat list \<Rightarrow> node option" where
  "nodeAt n [] = Some n"
| "nodeAt n (i # p) =
     (if i < length (childNodes n) then nodeAt (childNodes n ! i) p else None)"

text \<open>\<open>modifyAt f p root\<close> is the tree after the node at \<open>p\<close> has been changed in place by \<open>f\<close>.\<close>

fun modifyAt :: "(node \<Rightarrow> node) \<Rightarrow> nat list \<Rightarrow> node \<Rightarrow> node" where
  "modifyAt f [] n = f n"
| "modifyAt f (i # p) n =
     (if i < length (childNodes n)
      then setChildNodes ((childNodes n)[i := modifyAt f p (childNodes n ! i)]) n
      else n)"

definition parentNode :: "node \<Rightarrow> nat list \<Rightarrow> node option" where
  "parentNode root p = (if p = [] then None else nodeAt root (butlast p))"

text \<open>\<^verbatim>\<open>parentElement\<close> is the parent when it is an element, and \<^verbatim>\<open>null\<close> otherwise.\<close>

definition parentElement :: "node \<Rightarrow> nat list \<Rightarrow> element option" where
  "parentElement root p =
     (case parentNode root p of Some (Element e cs) \<Rightarrow> Some e | _ \<Rightarrow> None)"

section \<open>Node Transform Engine\<close>

definition hasBeenUpdated :: "node \<Rightarrow> nat list \<Rightarrow> bool" where
  "hasBeenUpdated root p =
     (case parentElement root p of
        None \<Rightarrow> False
      | Some e \<Rightarrow> getAttribute e (lit ''wudooh'') = Some (lit ''true''))"

text \<open>
  Modelled from the spec: \<^verbatim>\<open>htmlEditables\<close> is a constant of \<^verbatim>\<open>shared.ts\<close>, which is
  absent; its elements are the tag names that the spec and the comment on
  \<^verbatim>\<open>isEditable\<close> list. \<open>toLowerCase\<close> is written for the letters A to Z, which is all
  that the name of an HTML element has in upper case.
\<close>

definition htmlEditables :: "jstring list" where
  "htmlEditables =
     map lit [''textarea'', ''input'', ''text'', ''email'', ''number'', ''search'', ''tel'',
              ''url'', ''password'']"

definition toLowerCase :: "jstring \<Rightarrow> jstring" where
  "toLowerCase s = map (\<lambda>c. if 0x41 \<le> c \<and> c \<le> 0x5A then c + 0x20 else c) s"

text \<open>
  \<^verbatim>\<open>isContentEditable\<close> is a property of HTML elements only, and the second test asks
  for an element node: a node of another kind is never editable.
\<close>

fun isEditable :: "node \<Rightarrow> bool" where
  "isEditable (Element e cs) \<longleftrightarrow>
     isContentEditable e \<or> toLowerCase (nodeName e) \<in> set htmlEditables"
| "isEditable _ \<longleftrightarrow> False"

text \<open>
  The sizes are percentages, whole numbers that the options page stores, and
  \<^verbatim>\<open>updateNode\<close> divides them by 100. Such a quotient is kept exactly, as its number of
  hundredths. Converted to a string it is written in decimal with at most two digits
  after the point and no trailing zero, which is what JavaScript prints for the double
  nearest to a quotient of this size.
\<close>

datatype number = Hundredths nat

definition div100 :: "nat \<Rightarrow> number" where
  "div100 n = Hundredths n"

definition digit :: "nat \<Rightarrow> 16 word" where
  "digit d = 0x30 + of_nat d"

fun decimal :: "nat \<Rightarrow> jstring" where
  "decimal n = (if n < 10 then [digit n] else decimal (n div 10) @ [digit (n mod 10)])"

declare decimal.simps [simp del]

fun numberToString :: "number \<Rightarrow> jstring" where
  "numberToString (Hundredths n) =
     decimal (n div 100) @
     (if n mod 100 = 0 then []
      else 0x2E # digit (n mod 100 div 10) # (if n mod 10 = 0 then [] else [digit (n mod 10)]))"

subsection \<open>Replacing the matches\<close>

text \<open>
  \<^verbatim>\<open>String.prototype.replace\<close> with a global expression and a replacement string
  substitutes every match, from left to right. In the replacement string
  \<^verbatim>\<open>$$\<close> stands for a dollar sign, \<^verbatim>\<open>$&\<close> for the match, \<^verbatim>\<open>$`\<close> for the text before
  the match, \<^verbatim>\<open>$'\<close> for the text after it, and \<^verbatim>\<open>$1\<close>, \<^verbatim>\<open>$2\<close>, \<^verbatim>\<open>$01\<close>, \<^verbatim>\<open>$02\<close> for
  the two captures of the expression (the first is the whole match, the second is empty
  when its group did not take part); every other character stands for itself.
\<close>

fun getSubstitution ::
  "jstring \<Rightarrow> jstring \<Rightarrow> jstring \<Rightarrow> jstring option \<Rightarrow> jstring \<Rightarrow> jstring" where
  "getSubstitution m preceding following g (c # d # r) =
     (if c \<noteq> 0x24 then c # getSubstitution m preceding following g (d # r)
      else if d = 0x24 then 0x24 # getSubstitution m preceding following g r
      else if d = 0x26 then m @ getSubstitution m preceding following g r
      else if d = 0x60 then preceding @ getSubstitution m preceding following g r
      else if d = 0x27 then following @ getSubstitution m preceding following g r
      else if d = 0x31 then m @ getSubstitution m preceding following g r
      else if d = 0x32
      then (case g of None \<Rightarrow> [] | Some x \<Rightarrow> x) @ getSubstitution m preceding following g r
      else if d = 0x30 then
        (case r of
           [] \<Rightarrow> [c, d]
         | e # r' \<Rightarrow>
             if e = 0x31 then m @ getSubstitution m preceding following g r'
             else if e = 0x32
             then (case g of None \<Rightarrow> [] | Some x \<Rightarrow> x) @
                  getSubstitution m preceding following g r'
             else c # getSubstitution m preceding following g (d # r))
      else c # getSubstitution m preceding following g (d # r))"
| "getSubstitution m preceding following g r = r"

function replaceFrom :: "jstring \<Rightarrow> jstring \<Rightarrow> jstring \<Rightarrow> jstring" where
  "replaceFrom consumed s newSubstr =
     (case arabicRegex_exec s of
        None \<Rightarrow> s
      | Some (pre, m, g, r) \<Rightarrow>
          pre @ getSubstitution m (consumed @ pre) r g newSubstr @
          replaceFrom (consumed @ pre @ m) r newSubstr)"
  by pat_completeness auto
termination
  by (relation "measure (\<lambda>(d, s, t). length s)") (auto dest!: arabicRegex_exec_SomeD)

declare replaceFrom.simps [simp del]

definition replace :: "jstring \<Rightarrow> jstring \<Rightarrow> jstring" where
  "replace s newSubstr = replaceFrom [] s newSubstr"

subsection \<open>Wrapping a text node\<close>

text \<open>
  \<open>setNodeHtml\<close> returns at once when the node has no parent and when the parent or the
  node is editable. Otherwise the markup is parsed into a temporary element, whose
  children are moved one by one before the node's next sibling, and the node is
  removed. The parser of the browser is the parameter \<open>parseHTML\<close>: the nodes that
  \<^verbatim>\<open>innerHTML\<close> makes of a string.
\<close>

fun insertBeforeAll :: "node list \<Rightarrow> nat \<Rightarrow> node list \<Rightarrow> node list" where
  "insertBeforeAll [] k cs = cs"
| "insertBeforeAll (x # xs) k cs = insertBeforeAll xs (Suc k) (take k cs @ x # drop k cs)"

definition removeChild :: "nat \<Rightarrow> node list \<Rightarrow> node list" where
  "removeChild i cs = take i cs @ drop (Suc i) cs"

definition setNodeHtml ::
  "(jstring \<Rightarrow> node list) \<Rightarrow> node \<Rightarrow> nat list \<Rightarrow> jstring \<Rightarrow> node" where
  "setNodeHtml parseHTML root p html =
     (case (parentNode root p, nodeAt root p) of
        (Some parent, Some node) \<Rightarrow>
          if isEditable parent \<or> isEditable node then root
          else modifyAt
                 (\<lambda>parent. setChildNodes
                    (removeChild (last p)
                       (insertBeforeAll (parseHTML html) (Suc (last p)) (childNodes parent)))
                    parent)
                 (butlast p) root
      | _ \<Rightarrow> root)"

definition newHTML :: "number \<Rightarrow> number \<Rightarrow> jstring \<Rightarrow> jstring" where
  "newHTML newSize newHeight font =
     (if font = lit ''Original''
      then lit ''<span wudooh='true' style='' @ [0x27] @
           lit ''font-size:'' @ numberToString newSize @ lit ''em;'' @
           lit ''line-height:'' @ numberToString newHeight @ lit ''em;'' @
           [0x27] @ lit ''>$&</span>''
      else lit ''<span wudooh='true' style='' @ [0x27] @
           lit ''font-size:'' @ numberToString newSize @ lit ''em;'' @
           lit ''line-height:'' @ numberToString newHeight @ lit ''em;'' @
           lit ''font-family:'' @ [0x22] @ font @ [0x22] @ lit '';'' @
           [0x27] @ lit ''>$&</span>'')"

definition updateByAdding ::
  "(jstring \<Rightarrow> node list) \<Rightarrow> node \<Rightarrow> nat list \<Rightarrow> jstring \<Rightarrow> number \<Rightarrow> number \<Rightarrow>
   jstring \<Rightarrow> node" where
  "updateByAdding parseHTML root p s newSize newHeight font =
     setNodeHtml parseHTML root p (replace s (newHTML newSize newHeight font))"

subsection \<open>Restyling a wrapped text node\<close>

fun withStyle :: "(css \<Rightarrow> css) \<Rightarrow> node \<Rightarrow> node" where
  "withStyle f (Element e cs) = Element (e\<lparr>style := f (style e)\<rparr>) cs"
| "withStyle f n = n"

text \<open>
  An assignment to \<^verbatim>\<open>style.fontFamily\<close> hands the string to the CSS parser of the browser,
  and the declaration changes only when the string is a value of the property. The
  empty string removes the declaration. A string that is no font-family value is
  dropped, and the property keeps what it had. A string that is one is kept, and the
  property then reads as the browser writes that value back, which need not be the
  string that was assigned (a browser may add or drop quotes around a family name).
  The answer of the parser is the parameter \<open>parseFontFamily\<close>: the text that the
  property reads afterwards, or \<open>None\<close> when the string is refused. One refusal is the
  same in every browser and is written out: a string that begins with a digit begins
  with a number token, and a font-family value begins with a family name, which is a
  quoted string or a sequence of identifiers, with a keyword or with a function; none
  of them begins with a digit.
\<close>

definition assignFontFamily :: "(jstring \<Rightarrow> jstring option) \<Rightarrow> jstring \<Rightarrow> jstring \<Rightarrow> jstring" where
  "assignFontFamily parseFontFamily old v =
     (if v = [] then []
      else if isDigit (hd v) then old
      else (case parseFontFamily v of Some written \<Rightarrow> written | None \<Rightarrow> old))"

text \<open>
  The three assignments to the style of \<^verbatim>\<open>node.parentElement\<close>. Reading a property of
  a parent element that is \<^verbatim>\<open>null\<close> raises \<open>TypeError\<close>. The two sizes are a decimal
  number followed by \<^verbatim>\<open>em\<close>, which is a length for every number that \<open>numberToString\<close>
  prints, and read back as they were assigned. The font is assigned as it is, without
  quotes.
\<close>

definition updateByChanging ::
  "(jstring \<Rightarrow> jstring option) \<Rightarrow> node \<Rightarrow> nat list \<Rightarrow> number \<Rightarrow> number \<Rightarrow> jstring \<Rightarrow>
   error + node" where
  "updateByChanging parseFontFamily root p newSize newHeight font =
     (case parentElement root p of
        None \<Rightarrow> Inl TypeError
      | Some e \<Rightarrow>
          Inr (modifyAt
                 (withStyle (\<lambda>st. st\<lparr>fontFamily :=
                    (if font = lit ''Original''
                     then assignFontFamily parseFontFamily (fontFamily st) []
                     else assignFontFamily parseFontFamily (fontFamily st) font)\<rparr>) \<circ>
                  withStyle (\<lambda>st. st\<lparr>lineHeight := numberToString newHeight @ lit ''em''\<rparr>) \<circ>
                  withStyle (\<lambda>st. st\<lparr>fontSize := numberToString newSize @ lit ''em''\<rparr>))
                 (butlast p) root))"

subsection \<open>The transform\<close>

text \<open>
  \<open>updateNode\<close> does nothing for a node whose value is \<^verbatim>\<open>null\<close> or empty; otherwise it
  restyles the parent when the parent carries the marker, and wraps the matches of the
  text when it does not.
\<close>

definition updateNode ::
  "(jstring \<Rightarrow> node list) \<Rightarrow> (jstring \<Rightarrow> jstring option) \<Rightarrow> node \<Rightarrow> nat list \<Rightarrow> nat \<Rightarrow> nat \<Rightarrow>
   jstring \<Rightarrow> error + node" where
  "updateNode parseHTML parseFontFamily root p textSize lineHeight' font =
     (let newSize = div100 textSize; newHeight = div100 lineHeight'
      in case nodeAt root p of
           None \<Rightarrow> Inl TypeError
         | Some node \<Rightarrow>
             (case nodeValue node of
                None \<Rightarrow> Inr root
              | Some s \<Rightarrow>
                  if s \<noteq> [] then
                    (if hasBeenUpdated root p
                     then updateByChanging parseFontFamily root p newSize newHeight font
                     else Inr (updateByAdding parseHTML root p s newSize newHeight font))
                  else Inr root))"

subsection \<open>Detached and editable nodes\<close>

lemma parentNode_Nil [simp]: "parentNode root [] = None"
  by (simp add: parentNode_def)

lemma parentElement_Nil [simp]: "parentElement root [] = None"
  by (simp add: parentElement_def)

lemma hasBeenUpdated_Nil [simp]: "\<not> hasBeenUpdated root []"
  by (simp add: hasBeenUpdated_def)

lemma setNodeHtml_detached [simp]: "setNodeHtml parseHTML root [] html = root"
  by (simp add: setNodeHtml_def)

text \<open>
  Claim C7. A text unit whose parent reference is absent is detached: it is the root of
  its own tree. For such a unit, of whatever kind and value, and for all parameters,
  \<open>updateNode\<close> returns normally and leaves the unit as it is.
\<close>

theorem updateNode_detached:
  "parentNode node [] = None \<and>
   updateNode parseHTML parseFontFamily node [] textSize lineHeight' font = Inr node"
  by (simp add: updateNode_def Let_def updateByAdding_def split: option.splits)

lemma setNodeHtml_editable:
  "parentNode root p = Some parent \<Longrightarrow> nodeAt root p = Some node \<Longrightarrow>
   isEditable parent \<or> isEditable node \<Longrightarrow> setNodeHtml parseHTML root p html = root"
  by (simp add: setNodeHtml_def)

text \<open>
  The editable guard is in \<open>setNodeHtml\<close>, so it covers the unit that has not been
  wrapped yet: there the tree stays as it is.
\<close>

lemma updateNode_editable_unwrapped:
  assumes "parentNode root p = Some parent" and "nodeAt root p = Some node"
    and "isEditable parent \<or> isEditable node" and "\<not> hasBeenUpdated root p"
  shows "updateNode parseHTML parseFontFamily root p textSize lineHeight' font = Inr root"
  using assms
  by (simp add: updateNode_def Let_def updateByAdding_def setNodeHtml_editable
      split: option.splits)

definition editableWrapper :: element where
  "editableWrapper =
     (setAttribute (lit ''wudooh'') (lit ''true'') (createElement (lit ''SPAN'')))
       \<lparr>style := \<lparr>fontSize = lit ''1em'', lineHeight = lit ''1em'', fontFamily = []\<rparr>,
        isContentEditable := True\<rparr>"

text \<open>
  Claim C2. For a unit whose parent is editable, \<open>updateNode\<close> should leave the subtree
  unchanged, wrapped or not. \<open>updateByChanging\<close> has no such guard: for a text node
  inside a wrapper \<^verbatim>\<open>span\<close> that reports \<^verbatim>\<open>isContentEditable\<close> (it inherits that from an
  ancestor that the page made editable after the text was wrapped), the inline style of
  the wrapper is rewritten.
\<close>

theorem updateNode_editable_wrapped_restyles:
  "isEditable (Element editableWrapper [Text [0x0645, 0x0631]]) \<and>
   parentNode (Element editableWrapper [Text [0x0645, 0x0631]]) [0] =
     Some (Element editableWrapper [Text [0x0645, 0x0631]]) \<and>
   hasBeenUpdated (Element editableWrapper [Text [0x0645, 0x0631]]) [0] \<and>
   updateNode parseHTML parseFontFamily (Element editableWrapper [Text [0x0645, 0x0631]]) [0] 150 120
       (lit ''Original'') =
     Inr (Element
            (editableWrapper
               \<lparr>style := \<lparr>fontSize = lit ''1.5em'', lineHeight = lit ''1.2em'', fontFamily = []\<rparr>\<rparr>)
            [Text [0x0645, 0x0631]]) \<and>
   updateNode parseHTML parseFontFamily (Element editableWrapper [Text [0x0645, 0x0631]]) [0] 150 120
       (lit ''Original'') \<noteq>
     Inr (Element editableWrapper [Text [0x0645, 0x0631]])"
  by (simp add: updateNode_def Let_def updateByChanging_def assignFontFamily_def
      hasBeenUpdated_def parentElement_def parentNode_def editableWrapper_def setAttribute_def
      createElement_def getAttribute_def div100_def decimal.simps digit_def lit_def)

section \<open>Restyling a wrapped unit\<close>

text \<open>
  \<open>updateNodeTimes n\<close> applies \<open>updateNode\<close> to the same reference \<open>n\<close> times with the
  same parameters, and stops at the first exception.
\<close>

fun updateNodeTimes ::
  "nat \<Rightarrow> (jstring \<Rightarrow> node list) \<Rightarrow> (jstring \<Rightarrow> jstring option) \<Rightarrow> node \<Rightarrow> nat list \<Rightarrow>
   nat \<Rightarrow> nat \<Rightarrow> jstring \<Rightarrow> error + node" where
  "updateNodeTimes 0 parseHTML parseFontFamily root p textSize lineHeight' font = Inr root"
| "updateNodeTimes (Suc n) parseHTML parseFontFamily root p textSize lineHeight' font =
     (case updateNode parseHTML parseFontFamily root p textSize lineHeight' font of
        Inl err \<Rightarrow> Inl err
      | Inr root' \<Rightarrow> updateNodeTimes n parseHTML parseFontFamily root' p textSize lineHeight' font)"

text \<open>
  What the claim is measured against. \<open>unstyled\<close> erases every inline style of a tree:
  two trees with the same image have the same shape, the same text and the same
  attributes, and differ in inline styles at most. \<open>wrappers\<close> counts the elements that
  carry the marker. \<open>styled parseFontFamily e\<close> is the element \<open>e\<close> after the three
  assignments of \<open>updateByChanging\<close>.
\<close>

fun unstyled :: "node \<Rightarrow> node" where
  "unstyled (Element e cs) =
     Element (e\<lparr>style := \<lparr>fontSize = [], lineHeight = [], fontFamily = []\<rparr>\<rparr>) (map unstyled cs)"
| "unstyled (Fragment cs) = Fragment (map unstyled cs)"
| "unstyled n = n"

fun wrappers :: "node \<Rightarrow> nat" where
  "wrappers (Element e cs) =
     (if getAttribute e (lit ''wudooh'') = Some (lit ''true'') then 1 else 0) +
     sum_list (map wrappers cs)"
| "wrappers (Fragment cs) = sum_list (map wrappers cs)"
| "wrappers n = 0"

definition styled ::
  "(jstring \<Rightarrow> jstring option) \<Rightarrow> element \<Rightarrow> nat \<Rightarrow> nat \<Rightarrow> jstring \<Rightarrow> element" where
  "styled parseFontFamily e textSize lineHeight' font =
     e\<lparr>style := \<lparr>fontSize = numberToString (div100 textSize) @ lit ''em'',
                  lineHeight = numberToString (div100 lineHeight') @ lit ''em'',
                  fontFamily =
                    (if font = lit ''Original''
                     then assignFontFamily parseFontFamily (fontFamily (style e)) []
                     else assignFontFamily parseFontFamily (fontFamily (style e)) font)\<rparr>\<rparr>"

lemma wrappers_unstyled: "wrappers (unstyled n) = wrappers n"
  by (induction n rule: unstyled.induct)
    (simp_all add: getAttribute_def comp_def cong: map_cong)

lemma unstyled_withStyle [simp]: "unstyled (withStyle f n) = unstyled n"
  by (cases n) simp_all

lemma unstyled_setChildNodes:
  "map unstyled cs = map unstyled (childNodes n) \<Longrightarrow> unstyled (setChildNodes cs n) = unstyled n"
  by (cases n) simp_all

lemma unstyled_modifyAt:
  "(\<And>n. unstyled (f n) = unstyled n) \<Longrightarrow> unstyled (modifyAt f p root) = unstyled root"
proof (induction p arbitrary: root)
  case Nil
  then show ?case by simp
next
  case (Cons i p)
  show ?case
  proof (cases "i < length (childNodes root)")
    case True
    have "map unstyled ((childNodes root)[i := modifyAt f p (childNodes root ! i)]) =
          (map unstyled (childNodes root))[i := unstyled (modifyAt f p (childNodes root ! i))]"
      by (simp add: map_update)
    also have "\<dots> = (map unstyled (childNodes root))[i := unstyled (childNodes root ! i)]"
      using Cons by simp
    also have "\<dots> = map unstyled (childNodes root)"
      using True by (simp add: list_update_same_conv)
    finally show ?thesis
      using True by (simp add: unstyled_setChildNodes)
  next
    case False
    then show ?thesis by simp
  qed
qed

lemma modifyAt_modifyAt: "modifyAt f p (modifyAt g p root) = modifyAt (f \<circ> g) p root"
proof (induction p arbitrary: root)
  case Nil
  show ?case by simp
next
  case (Cons i p)
  show ?case
    using Cons [of "childNodes root ! i"] by (cases root) simp_all
qed

lemma nodeAt_append:
  "nodeAt root (p @ q) = (case nodeAt root p of None \<Rightarrow> None | Some n \<Rightarrow> nodeAt n q)"
  by (induction p arbitrary: root) simp_all

lemma nodeAt_modifyAt_same:
  "nodeAt (modifyAt f p root) p = map_option f (nodeAt root p)"
proof (induction p arbitrary: root)
  case Nil
  show ?case by simp
next
  case (Cons i p)
  show ?case
    using Cons [of "childNodes root ! i"] by (cases root) simp_all
qed

lemma modifyAt_const: "nodeAt root q = Some n \<Longrightarrow> modifyAt f q root = modifyAt (\<lambda>_. f n) q root"
proof (induction q arbitrary: root)
  case Nil
  then show ?case by simp
next
  case (Cons i q)
  then show ?case by (cases root) (simp_all split: if_splits)
qed

lemma restyle_Element:
  "(withStyle (\<lambda>st. st\<lparr>fontFamily :=
         (if font = lit ''Original''
          then assignFontFamily parseFontFamily (fontFamily st) []
          else assignFontFamily parseFontFamily (fontFamily st) font)\<rparr>) \<circ>
    withStyle (\<lambda>st. st\<lparr>lineHeight := numberToString (div100 lineHeight') @ lit ''em''\<rparr>) \<circ>
    withStyle (\<lambda>st. st\<lparr>fontSize := numberToString (div100 textSize) @ lit ''em''\<rparr>))
     (Element e cs) =
   Element (styled parseFontFamily e textSize lineHeight' font) cs"
  by (simp add: styled_def)

lemma assignFontFamily_again [simp]:
  "assignFontFamily parseFontFamily (assignFontFamily parseFontFamily old v) v =
   assignFontFamily parseFontFamily old v"
  by (simp add: assignFontFamily_def split: option.splits)

lemma styled_styled [simp]:
  "styled parseFontFamily (styled parseFontFamily e textSize lineHeight' font) textSize lineHeight' font =
   styled parseFontFamily e textSize lineHeight' font"
  by (simp add: styled_def)

lemma getAttribute_styled [simp]:
  "getAttribute (styled parseFontFamily e textSize lineHeight' font) name = getAttribute e name"
  by (simp add: styled_def getAttribute_def)

lemma parentNode_butlast: "parentNode root p = Some n \<Longrightarrow> p \<noteq> [] \<and> nodeAt root (butlast p) = Some n"
  by (simp add: parentNode_def split: if_splits)

lemma updateNode_wrapped_once:
  assumes unit: "nodeAt root p = Some (Text s)" and s: "s \<noteq> []"
    and parent: "parentNode root p = Some (Element e cs)"
    and marker: "getAttribute e (lit ''wudooh'') = Some (lit ''true'')"
  shows "updateNode parseHTML parseFontFamily root p textSize lineHeight' font =
         Inr (modifyAt (\<lambda>_. Element (styled parseFontFamily e textSize lineHeight' font) cs) (butlast p) root)"
proof -
  from parent have q: "nodeAt root (butlast p) = Some (Element e cs)"
    by (simp add: parentNode_butlast)
  from parent marker have "parentElement root p = Some e" "hasBeenUpdated root p"
    by (simp_all add: parentElement_def hasBeenUpdated_def)
  with unit s have "updateNode parseHTML parseFontFamily root p textSize lineHeight' font =
    Inr (modifyAt
      (withStyle (\<lambda>st. st\<lparr>fontFamily :=
         (if font = lit ''Original''
          then assignFontFamily parseFontFamily (fontFamily st) []
          else assignFontFamily parseFontFamily (fontFamily st) font)\<rparr>) \<circ>
       withStyle (\<lambda>st. st\<lparr>lineHeight := numberToString (div100 lineHeight') @ lit ''em''\<rparr>) \<circ>
       withStyle (\<lambda>st. st\<lparr>fontSize := numberToString (div100 textSize) @ lit ''em''\<rparr>))
      (butlast p) root)"
    by (simp add: updateNode_def Let_def updateByChanging_def)
  also have "\<dots> = Inr (modifyAt (\<lambda>_. Element (styled parseFontFamily e textSize lineHeight' font) cs) (butlast p) root)"
    by (subst modifyAt_const [OF q]) (simp only: restyle_Element)
  finally show ?thesis .
qed

lemma wrapped_after:
  assumes unit: "nodeAt root p = Some (Text s)"
    and parent: "parentNode root p = Some (Element e cs)"
  shows "nodeAt (modifyAt (\<lambda>_. Element e' cs) (butlast p) root) p = Some (Text s)"
    and "parentNode (modifyAt (\<lambda>_. Element e' cs) (butlast p) root) p = Some (Element e' cs)"
proof -
  from parent have p: "p \<noteq> []" and q: "nodeAt root (butlast p) = Some (Element e cs)"
    by (simp_all add: parentNode_butlast)
  have after: "nodeAt (modifyAt (\<lambda>_. Element e' cs) (butlast p) root) (butlast p) = Some (Element e' cs)"
    by (simp add: nodeAt_modifyAt_same q)
  from p have split: "p = butlast p @ [last p]" by simp
  from unit q have "nodeAt (Element e cs) [last p] = Some (Text s)"
    by (subst (asm) split) (simp add: nodeAt_append)
  then have "nodeAt (Element e' cs) [last p] = Some (Text s)"
    by (simp split: if_splits)
  with after show "nodeAt (modifyAt (\<lambda>_. Element e' cs) (butlast p) root) p = Some (Text s)"
    by (subst split) (simp add: nodeAt_append del: nodeAt.simps)
  from after p show "parentNode (modifyAt (\<lambda>_. Element e' cs) (butlast p) root) p = Some (Element e' cs)"
    by (simp add: parentNode_def)
qed

lemma unstyled_restyle:
  assumes "nodeAt root q = Some (Element e cs)"
  shows "unstyled (modifyAt (\<lambda>_. Element (styled parseFontFamily e textSize lineHeight' font) cs) q root) = unstyled root"
proof -
  have "modifyAt (\<lambda>_. Element (styled parseFontFamily e textSize lineHeight' font) cs) q root =
        modifyAt (withStyle (\<lambda>_. style (styled parseFontFamily e textSize lineHeight' font))) q root"
    by (subst modifyAt_const [OF assms, of "withStyle (\<lambda>_. style (styled parseFontFamily e textSize lineHeight' font))"])
      (simp add: styled_def)
  then show ?thesis
    by (simp add: unstyled_modifyAt)
qed

text \<open>
  Claim C3, as amended. Let a text node with a non-empty value have a parent element
  that carries the marker and is not editable. Applying \<open>updateNode\<close> to it once or more, with the same
  parameters, always gives the same tree: the tree in which the parent has the inline
  style of the parameters (font size and line height are the parameters divided by 100,
  in \<^verbatim>\<open>em\<close>) and still carries the marker. That tree differs from the first one in
  inline styles only, and holds as many marker elements: no wrapper is added and the
  structure is not modified. The text may or may not contain Arabic script.
\<close>

theorem updateNode_wrapped_idempotent:
  assumes unit: "nodeAt root p = Some (Text s)" and s: "s \<noteq> []"
    and parent: "parentNode root p = Some (Element e cs)"
    and marker: "getAttribute e (lit ''wudooh'') = Some (lit ''true'')"
    and editable: "\<not> isEditable (Element e cs)"
  shows "updateNodeTimes (Suc n) parseHTML parseFontFamily root p textSize lineHeight' font =
           Inr (modifyAt (\<lambda>_. Element (styled parseFontFamily e textSize lineHeight' font) cs) (butlast p) root) \<and>
         parentNode (modifyAt (\<lambda>_. Element (styled parseFontFamily e textSize lineHeight' font) cs) (butlast p) root) p =
           Some (Element (styled parseFontFamily e textSize lineHeight' font) cs) \<and>
         hasBeenUpdated (modifyAt (\<lambda>_. Element (styled parseFontFamily e textSize lineHeight' font) cs) (butlast p) root) p \<and>
         fontSize (style (styled parseFontFamily e textSize lineHeight' font)) =
           numberToString (div100 textSize) @ lit ''em'' \<and>
         lineHeight (style (styled parseFontFamily e textSize lineHeight' font)) =
           numberToString (div100 lineHeight') @ lit ''em'' \<and>
         unstyled (modifyAt (\<lambda>_. Element (styled parseFontFamily e textSize lineHeight' font) cs) (butlast p) root) =
           unstyled root \<and>
         wrappers (modifyAt (\<lambda>_. Element (styled parseFontFamily e textSize lineHeight' font) cs) (butlast p) root) =
           wrappers root"
proof -
  let ?e' = "styled parseFontFamily e textSize lineHeight' font"
  let ?root' = "modifyAt (\<lambda>_. Element ?e' cs) (butlast p) root"
  have unit': "nodeAt ?root' p = Some (Text s)"
    and parent': "parentNode ?root' p = Some (Element ?e' cs)"
    using wrapped_after [OF unit parent] by simp_all
  have marker': "getAttribute ?e' (lit ''wudooh'') = Some (lit ''true'')"
    using marker by simp
  have once: "updateNode parseHTML parseFontFamily root p textSize lineHeight' font = Inr ?root'"
    using unit s parent marker by (rule updateNode_wrapped_once)
  have "updateNode parseHTML parseFontFamily ?root' p textSize lineHeight' font =
        Inr (modifyAt (\<lambda>_. Element (styled parseFontFamily ?e' textSize lineHeight' font) cs) (butlast p) ?root')"
    using unit' s parent' marker' by (rule updateNode_wrapped_once)
  then have again: "updateNode parseHTML parseFontFamily ?root' p textSize lineHeight' font = Inr ?root'"
    by (simp add: modifyAt_modifyAt comp_def)
  have fixed: "updateNodeTimes k parseHTML parseFontFamily ?root' p textSize lineHeight' font = Inr ?root'" for k
    by (induction k) (simp_all add: again)
  have times: "updateNodeTimes (Suc n) parseHTML parseFontFamily root p textSize lineHeight' font = Inr ?root'"
    by (simp add: once fixed)
  have updated: "hasBeenUpdated ?root' p"
    using parent' marker' by (simp add: hasBeenUpdated_def parentElement_def)
  from parent have q: "nodeAt root (butlast p) = Some (Element e cs)"
    by (simp add: parentNode_butlast)
  have same: "unstyled ?root' = unstyled root"
    using q by (rule unstyled_restyle)
  have "wrappers ?root' = wrappers (unstyled ?root')"
    by (simp add: wrappers_unstyled)
  also have "\<dots> = wrappers root"
    by (simp add: same wrappers_unstyled)
  finally have count: "wrappers ?root' = wrappers root" .
  show ?thesis
    using times parent' updated same count by (simp add: styled_def)
qed

text \<open>
  \<open>asText\<close> is the simplest parser, for the places where a concrete tree is evaluated: it
  makes one text node of the whole string.
\<close>

definition asText :: "jstring \<Rightarrow> node list" where
  "asText html = [Text html]"

text \<open>
  \<open>asWritten\<close> stands in the same places for the CSS parser of a browser that accepts
  each font family assigned there and writes it back as it was assigned.
\<close>

definition asWritten :: "jstring \<Rightarrow> jstring option" where
  "asWritten v = Some v"

definition wrapperSpan :: element where
  "wrapperSpan =
     (setAttribute (lit ''wudooh'') (lit ''true'') (createElement (lit ''SPAN'')))
       \<lparr>style := \<lparr>fontSize = lit ''1em'', lineHeight = lit ''1em'', fontFamily = []\<rparr>\<rparr>"

text \<open>
  Claim C3 as stated covers every wrapped unit. A text node with the empty value
  inside a wrapper is one, and \<open>updateNode\<close> returns before it looks at the parent: the
  wrapper keeps the font size \<^verbatim>\<open>1em\<close> where the parameters ask for \<^verbatim>\<open>1.5em\<close>.
\<close>

theorem updateNode_wrapped_empty_counterexample:
  "hasBeenUpdated (Element wrapperSpan [Text []]) [0] \<and>
   updateNodeTimes 1 asText asWritten (Element wrapperSpan [Text []]) [0] 150 120 (lit ''Original'') =
     Inr (Element wrapperSpan [Text []]) \<and>
   fontSize (style wrapperSpan) \<noteq> numberToString (div100 150) @ lit ''em''"
  by (simp add: updateNode_def Let_def hasBeenUpdated_def parentElement_def
      parentNode_def wrapperSpan_def setAttribute_def createElement_def getAttribute_def
      div100_def decimal.simps digit_def lit_def)

theorem updateNode_wrapped_idempotent_witness:
  "nodeAt (Fragment [Comment [], Element wrapperSpan [Text [0x0645, 0x0631]]]) [1, 0] =
     Some (Text [0x0645, 0x0631]) \<and>
   parentNode (Fragment [Comment [], Element wrapperSpan [Text [0x0645, 0x0631]]]) [1, 0] =
     Some (Element wrapperSpan [Text [0x0645, 0x0631]]) \<and>
   getAttribute wrapperSpan (lit ''wudooh'') = Some (lit ''true'') \<and>
   \<not> isEditable (Element wrapperSpan [Text [0x0645, 0x0631]]) \<and>
   updateNodeTimes 3 asText asWritten (Fragment [Comment [], Element wrapperSpan [Text [0x0645, 0x0631]]])
       [1, 0] 150 120 (lit ''Noto'') =
     Inr (Fragment [Comment [],
            Element (wrapperSpan\<lparr>style := \<lparr>fontSize = lit ''1.5em'', lineHeight = lit ''1.2em'',
                                            fontFamily = lit ''Noto''\<rparr>\<rparr>)
              [Text [0x0645, 0x0631]]])"
proof -
  have unit: "nodeAt (Fragment [Comment [], Element wrapperSpan [Text [0x0645, 0x0631]]]) [1, 0] =
     Some (Text [0x0645, 0x0631])"
    by simp
  have s: "[0x0645, 0x0631] \<noteq> ([] :: jstring)"
    by simp
  have parent: "parentNode (Fragment [Comment [], Element wrapperSpan [Text [0x0645, 0x0631]]]) [1, 0] =
     Some (Element wrapperSpan [Text [0x0645, 0x0631]])"
    by (simp add: parentNode_def)
  have marker: "getAttribute wrapperSpan (lit ''wudooh'') = Some (lit ''true'')"
    by (simp add: wrapperSpan_def setAttribute_def createElement_def getAttribute_def)
  have editable: "\<not> isEditable (Element wrapperSpan [Text [0x0645, 0x0631]])"
    by (simp add: wrapperSpan_def setAttribute_def createElement_def htmlEditables_def
        toLowerCase_def lit_def)
  have three: "(3::nat) = Suc 2"
    by simp
  show ?thesis
    using unit parent marker editable
      updateNode_wrapped_idempotent [OF unit s parent marker editable, of 2 asText asWritten 150 120
        "lit ''Noto''"]
    unfolding three
    by (simp add: styled_def assignFontFamily_def asWritten_def isDigit_def wrapperSpan_def
        div100_def decimal.simps digit_def lit_def)
qed

section \<open>Wrapping the match of an unwrapped unit\<close>

text \<open>
  After a greedy \<open>plus\<close> the same class cannot match again, so \<open>starPlus\<close> makes at most
  one iteration: it takes the longest prefix in the class.
\<close>

lemma plus_eq:
  "plus P s = (if takeWhile P s = [] then None else Some (takeWhile P s, dropWhile P s))"
  by (simp add: plus_def split: list.splits)

lemma plus_dropWhile: "plus P (dropWhile P s) = None"
proof (cases "dropWhile P s")
  case Nil
  show ?thesis unfolding Nil by (simp add: plus_def)
next
  case (Cons c r)
  then have "\<not> P c"
    using hd_dropWhile [of P s] by simp
  then show ?thesis unfolding Cons by (simp add: plus_def)
qed

lemma starPlus_eq:
  "starPlus P s =
     (takeWhile P s, (if takeWhile P s = [] then None else Some (takeWhile P s)), dropWhile P s)"
proof (cases "takeWhile P s = []")
  case True
  then have "dropWhile P s = s"
    by (metis append_Nil takeWhile_dropWhile_id)
  with True show ?thesis
    by (subst starPlus.simps) (simp add: plus_eq)
next
  case False
  have "starPlus P (dropWhile P s) = ([], None, dropWhile P s)"
    by (subst starPlus.simps) (simp add: plus_dropWhile)
  with False show ?thesis
    by (subst starPlus.simps) (simp add: plus_eq)
qed

lemma arabicRegex_exec_skip:
  "\<forall>c\<in>set pre. \<not> isArabic c \<Longrightarrow> arabicRegex_at s = Some (m, g, r) \<Longrightarrow>
   arabicRegex_exec (pre @ s) = Some (pre, m, g, r)"
proof (induction pre)
  case Nil
  then show ?case by (cases s) (simp_all add: arabicRegex_at_def plus_def)
next
  case (Cons c pre)
  then have "arabicRegex_at (c # pre @ s) = None"
    by (simp add: arabicRegex_at_Cons_None_iff)
  with Cons show ?case by simp
qed

lemma insertBeforeAll_eq:
  "k \<le> length cs \<Longrightarrow> insertBeforeAll xs k cs = take k cs @ xs @ drop k cs"
proof (induction xs arbitrary: k cs)
  case Nil
  show ?case by simp
next
  case (Cons x xs)
  have "insertBeforeAll (x # xs) k cs = insertBeforeAll xs (Suc k) (take k cs @ x # drop k cs)"
    by simp
  also have "\<dots> = take (Suc k) (take k cs @ x # drop k cs) @ xs @
                    drop (Suc k) (take k cs @ x # drop k cs)"
    using Cons.prems by (intro Cons.IH) simp
  also have "\<dots> = take k cs @ (x # xs) @ drop k cs"
    using Cons.prems by (simp add: min_def)
  finally show ?case .
qed

lemma splice_eq:
  "i < length cs \<Longrightarrow>
   removeChild i (insertBeforeAll xs (Suc i) cs) = take i cs @ xs @ drop (Suc i) cs"
  by (simp add: insertBeforeAll_eq removeChild_def min_def take_Suc_conv_app_nth)

lemma setNodeHtml_splice:
  assumes unit: "nodeAt root p = Some node" and parent: "parentNode root p = Some parent"
    and editable: "\<not> isEditable parent" "\<not> isEditable node"
  shows "setNodeHtml parseHTML root p html =
         modifyAt (\<lambda>parent. setChildNodes
                     (take (last p) (childNodes parent) @ parseHTML html @
                      drop (Suc (last p)) (childNodes parent)) parent)
           (butlast p) root"
proof -
  from parent have p: "p \<noteq> []" and q: "nodeAt root (butlast p) = Some parent"
    by (simp_all add: parentNode_butlast)
  from p have split: "p = butlast p @ [last p]" by simp
  from unit q have "nodeAt parent [last p] = Some node"
    by (subst (asm) split) (simp add: nodeAt_append)
  then have i: "last p < length (childNodes parent)"
    by (simp split: if_splits)
  have "setNodeHtml parseHTML root p html =
        modifyAt (\<lambda>parent. setChildNodes
                    (removeChild (last p)
                       (insertBeforeAll (parseHTML html) (Suc (last p)) (childNodes parent)))
                    parent) (butlast p) root"
    using unit parent editable by (simp add: setNodeHtml_def)
  also have "\<dots> = modifyAt (\<lambda>_. setChildNodes
                    (take (last p) (childNodes parent) @ parseHTML html @
                     drop (Suc (last p)) (childNodes parent)) parent) (butlast p) root"
    by (subst modifyAt_const [OF q]) (simp only: splice_eq [OF i])
  also have "\<dots> = modifyAt (\<lambda>parent. setChildNodes
                    (take (last p) (childNodes parent) @ parseHTML html @
                     drop (Suc (last p)) (childNodes parent)) parent) (butlast p) root"
    by (rule modifyAt_const [OF q, symmetric])
  finally show ?thesis .
qed

text \<open>
  The expression matches at a position exactly when an Arabic character stands there,
  and the match is the longest prefix of characters that are Arabic, digits or not word
  characters: the first class of the expression is contained in the second.
\<close>

lemma takeWhile_sub:
  assumes "\<And>x. P x \<Longrightarrow> Q x"
  shows "takeWhile P xs @ takeWhile Q (dropWhile P xs) = takeWhile Q xs"
    and "dropWhile Q (dropWhile P xs) = dropWhile Q xs"
  by (induction xs) (auto simp: assms)

lemma arabicRegex_at_eq:
  "arabicRegex_at s =
     (if takeWhile isArabic s = [] then None
      else Some (takeWhile isTail s,
                 (if takeWhile isTail (dropWhile isArabic s) = [] then None
                  else Some (takeWhile isTail (dropWhile isArabic s))),
                 dropWhile isTail s))"
  by (simp add: arabicRegex_at_def plus_eq starPlus_eq takeWhile_sub isTail_def)

lemma arabicRegex_at_match:
  assumes "isArabic c" and "list_all isTail m"
    and "case rest of [] \<Rightarrow> True | d # _ \<Rightarrow> \<not> isTail d"
  shows "\<exists>g. arabicRegex_at (c # m @ rest) = Some (c # m, g, rest)"
proof -
  from assms(3) have "takeWhile isTail rest = []" "dropWhile isTail rest = rest"
    by (cases rest; simp)+
  with assms(1,2) have "takeWhile isTail (c # m @ rest) = c # m"
    "dropWhile isTail (c # m @ rest) = rest"
    by (simp_all add: takeWhile_append dropWhile_append list_all_iff isTail_def)
  moreover from assms(1) have "takeWhile isArabic (c # m @ rest) \<noteq> []"
    by simp
  ultimately show ?thesis
    by (simp only: arabicRegex_at_eq if_False) blast
qed

lemma replaceFrom_no_match:
  assumes "list_all (\<lambda>c. \<not> isArabic c) s"
  shows "replaceFrom consumed s newSubstr = s"
proof -
  from assms have "arabicRegex_exec s = None"
    by (simp add: arabicRegex_exec_None_iff list_all_iff)
  then show ?thesis
    by (subst replaceFrom.simps) simp
qed

lemma replace_single_match:
  assumes pre: "list_all (\<lambda>c. \<not> isArabic c) pre"
    and c: "isArabic c" and m: "list_all isTail m"
    and bound: "case rest of [] \<Rightarrow> True | d # _ \<Rightarrow> \<not> isTail d"
    and rest: "list_all (\<lambda>c. \<not> isArabic c) rest"
  shows "\<exists>g. replace (pre @ c # m @ rest) newSubstr =
           pre @ getSubstitution (c # m) pre rest g newSubstr @ rest"
proof -
  from arabicRegex_at_match [OF c m bound]
  obtain g where "arabicRegex_at (c # m @ rest) = Some (c # m, g, rest)" ..
  with pre have "arabicRegex_exec (pre @ c # m @ rest) = Some (pre, c # m, g, rest)"
    by (intro arabicRegex_exec_skip) (simp_all add: list_all_iff)
  then have "replace (pre @ c # m @ rest) newSubstr =
           pre @ getSubstitution (c # m) pre rest g newSubstr @ rest"
    unfolding replace_def
    by (subst replaceFrom.simps) (simp add: replaceFrom_no_match [OF rest])
  then show ?thesis ..
qed

text \<open>
  A replacement string without a dollar sign stands for itself, and one whose only
  dollar sign is that of \<^verbatim>\<open>$&\<close> stands for itself with the match in that place.
\<close>

lemma getSubstitution_plain:
  "0x24 \<notin> set t \<Longrightarrow> getSubstitution m b a g t = t"
proof (induction t)
  case Nil
  show ?case by simp
next
  case (Cons c t)
  show ?case
  proof (cases t)
    case Nil
    then show ?thesis by simp
  next
    case (Cons d r)
    with Cons.prems Cons.IH have "c \<noteq> 0x24" "getSubstitution m b a g (d # r) = d # r"
      by auto
    then show ?thesis
      unfolding Cons by (simp only: getSubstitution.simps(1) if_True not_False_eq_True)
  qed
qed

lemma getSubstitution_match:
  "0x24 \<notin> set x \<Longrightarrow> 0x24 \<notin> set y \<Longrightarrow>
   getSubstitution m b a g (x @ 0x24 # 0x26 # y) = x @ m @ y"
proof (induction x)
  case Nil
  then have "getSubstitution m b a g y = y" by (simp add: getSubstitution_plain)
  then show ?case by simp
next
  case (Cons c x)
  then have c: "c \<noteq> 0x24" and IH: "getSubstitution m b a g (x @ 0x24 # 0x26 # y) = x @ m @ y"
    by auto
  obtain d r where dr: "x @ 0x24 # 0x26 # y = d # r"
    by (cases x) auto
  from c IH show ?case
    unfolding append_Cons dr by (simp only: getSubstitution.simps(1) if_True not_False_eq_True)
qed

lemma digit_not_dollar: "d < 10 \<Longrightarrow> digit d \<noteq> 0x24"
proof -
  assume "d < 10"
  then have "d = 0 \<or> d = 1 \<or> d = 2 \<or> d = 3 \<or> d = 4 \<or> d = 5 \<or> d = 6 \<or> d = 7 \<or> d = 8 \<or> d = 9"
    by arith
  then show ?thesis
    by (elim disjE) (simp_all add: digit_def)
qed

lemma decimal_no_dollar: "0x24 \<notin> set (decimal n)"
proof (induction n rule: decimal.induct)
  case (1 n)
  show ?case
  proof (cases "n < 10")
    case True
    then show ?thesis
      using digit_not_dollar [of n] by (subst decimal.simps) simp
  next
    case False
    have "n mod 10 < 10" by simp
    then have "digit (n mod 10) \<noteq> 0x24" by (rule digit_not_dollar)
    with False 1 show ?thesis
      by (subst decimal.simps) simp
  qed
qed

lemma numberToString_no_dollar: "0x24 \<notin> set (numberToString a)"
proof (cases a)
  case (Hundredths n)
  have "n mod 100 div 10 < 10" by simp
  then have a: "digit (n mod 100 div 10) \<noteq> 0x24" by (rule digit_not_dollar)
  have "n mod 10 < 10" by simp
  then have b: "digit (n mod 10) \<noteq> 0x24" by (rule digit_not_dollar)
  from a b show ?thesis
    using decimal_no_dollar [of "n div 100"] by (simp add: Hundredths)
qed

text \<open>
  \<open>spanStart\<close> is the markup of \<open>updateByAdding\<close> up to the place of the match: the start
  tag of the wrapper, with the marker and the inline style. The font family is there,
  between double quotes, for every font but \<^verbatim>\<open>Original\<close>.
\<close>

definition spanStart :: "number \<Rightarrow> number \<Rightarrow> jstring \<Rightarrow> jstring" where
  "spanStart newSize newHeight font =
     lit ''<span wudooh='true' style='font-size:'' @ numberToString newSize @
     lit ''em;line-height:'' @ numberToString newHeight @ lit ''em;'' @
     (if font = lit ''Original'' then []
      else lit ''font-family:'' @ [0x22] @ font @ [0x22] @ lit '';'') @
     [0x27] @ lit ''>''"

lemma newHTML_spanStart:
  "newHTML newSize newHeight font = spanStart newSize newHeight font @ 0x24 # 0x26 # lit ''</span>''"
  by (simp add: newHTML_def spanStart_def lit_def)

lemma spanStart_no_dollar:
  "0x24 \<notin> set font \<Longrightarrow> 0x24 \<notin> set (spanStart newSize newHeight font)"
  by (simp add: spanStart_def numberToString_no_dollar lit_def)

text \<open>
  Wrapping. Let the text of a unit hold one match of the expression: no Arabic
  character before it, an Arabic character \<open>c\<close> at its start, then characters \<open>m\<close> that
  all are Arabic, digits or not word characters (several Arabic words with the blanks
  between them make one match), and after it a rest that is empty or begins with a
  letter or an underscore and holds no Arabic character. Let the unit have a parent
  that is not editable and does not carry the marker. Then, for all sizes and every
  font without a dollar sign, \<open>updateNode\<close> puts in the place of the unit the nodes
  that the parser makes of this markup: the text before the match, one \<^verbatim>\<open>span\<close> with
  the marker and the inline style around the whole match, and the rest. The style has
  the font family, in quotes, exactly when the font is not \<^verbatim>\<open>Original\<close>.
\<close>

lemma updateNode_wraps_match:
  assumes unit: "nodeAt root p = Some (Text (pre @ c # m @ rest))"
    and pre: "list_all (\<lambda>c. \<not> isArabic c) pre"
    and c: "isArabic c" and m: "list_all isTail m"
    and bound: "case rest of [] \<Rightarrow> True | d # _ \<Rightarrow> \<not> isTail d"
    and rest: "list_all (\<lambda>c. \<not> isArabic c) rest"
    and parent: "parentNode root p = Some parent"
    and unwrapped: "\<not> hasBeenUpdated root p"
    and editable: "\<not> isEditable parent"
    and font: "0x24 \<notin> set font"
  shows "updateNode parseHTML parseFontFamily root p textSize lineHeight' font =
           Inr (modifyAt
                  (\<lambda>parent. setChildNodes
                     (take (last p) (childNodes parent) @
                      parseHTML
                        (pre @ spanStart (div100 textSize) (div100 lineHeight') font @
                         c # m @ lit ''</span>'' @ rest) @
                      drop (Suc (last p)) (childNodes parent)) parent)
                  (butlast p) root)"
proof -
  let ?html = "pre @ spanStart (div100 textSize) (div100 lineHeight') font @
               c # m @ lit ''</span>'' @ rest"
  from replace_single_match [OF pre c m bound rest]
  obtain g where "replace (pre @ c # m @ rest)
        (newHTML (div100 textSize) (div100 lineHeight') font) =
      pre @ getSubstitution (c # m) pre rest g
              (newHTML (div100 textSize) (div100 lineHeight') font) @ rest" ..
  moreover have "getSubstitution (c # m) pre rest g
        (newHTML (div100 textSize) (div100 lineHeight') font) =
      spanStart (div100 textSize) (div100 lineHeight') font @ (c # m) @ lit ''</span>''"
    unfolding newHTML_spanStart
    by (rule getSubstitution_match) (simp_all add: spanStart_no_dollar font lit_def)
  ultimately have markup: "replace (pre @ c # m @ rest)
        (newHTML (div100 textSize) (div100 lineHeight') font) = ?html"
    by simp
  have "updateNode parseHTML parseFontFamily root p textSize lineHeight' font =
        Inr (setNodeHtml parseHTML root p ?html)"
    using unit unwrapped by (simp add: updateNode_def Let_def updateByAdding_def markup)
  also have "setNodeHtml parseHTML root p ?html =
      modifyAt
        (\<lambda>parent. setChildNodes
           (take (last p) (childNodes parent) @ parseHTML ?html @
            drop (Suc (last p)) (childNodes parent)) parent)
        (butlast p) root"
    by (rule setNodeHtml_splice [OF unit parent editable]) simp
  finally show ?thesis .
qed

text \<open>
  The text \<^verbatim>\<open>hello\<close>, five Arabic letters, \<^verbatim>\<open>world\<close> in a paragraph, with text size 150,
  line height 120 and the font \<^verbatim>\<open>Original\<close>: the match is the Arabic word and the blank
  after it, and the style has no font family. Two Arabic words with a blank between
  them are one match, and get one wrapper.
\<close>

definition helloParagraph :: node where
  "helloParagraph =
     Element (createElement (lit ''P''))
       [Text (lit ''hello '' @ [0x0645, 0x0631, 0x062D, 0x0628, 0x0627] @ lit '' world'')]"

lemma updateNode_wraps_hello:
  "updateNode parseHTML parseFontFamily helloParagraph [0] 150 120 (lit ''Original'') =
     Inr (Element (createElement (lit ''P''))
            (parseHTML
               (lit ''hello <span wudooh='true' style='font-size:1.5em;line-height:1.2em;'>'' @
                [0x0645, 0x0631, 0x062D, 0x0628, 0x0627] @ lit '' </span>world'')))"
proof -
  have unit: "nodeAt helloParagraph [0] =
     Some (Text (lit ''hello '' @ 0x0645 # ([0x0631, 0x062D, 0x0628, 0x0627] @ lit '' '') @
                 lit ''world''))"
    by (simp add: helloParagraph_def lit_def)
  have pre: "list_all (\<lambda>c. \<not> isArabic c) (lit ''hello '')"
    by (simp add: lit_def isArabic_def)
  have c: "isArabic 0x0645"
    by (simp add: isArabic_def)
  have m: "list_all isTail ([0x0631, 0x062D, 0x0628, 0x0627] @ lit '' '')"
    by (simp add: lit_def isTail_def isArabic_def isWordChar_def isDigit_def)
  have bound: "case lit ''world'' of [] \<Rightarrow> True | d # _ \<Rightarrow> \<not> isTail d"
    by (simp add: lit_def isTail_def isArabic_def isWordChar_def isDigit_def)
  have rest: "list_all (\<lambda>c. \<not> isArabic c) (lit ''world'')"
    by (simp add: lit_def isArabic_def)
  have parent: "parentNode helloParagraph [0] = Some helloParagraph"
    by (simp add: helloParagraph_def parentNode_def)
  have unwrapped: "\<not> hasBeenUpdated helloParagraph [0]"
    by (simp add: helloParagraph_def hasBeenUpdated_def parentElement_def parentNode_def
        createElement_def getAttribute_def)
  have editable: "\<not> isEditable helloParagraph"
    by (simp add: helloParagraph_def createElement_def htmlEditables_def toLowerCase_def lit_def)
  have font: "0x24 \<notin> set (lit ''Original'')"
    by (simp add: lit_def)
  show ?thesis
    using updateNode_wraps_match [OF unit pre c m bound rest parent unwrapped editable font,
        of parseHTML parseFontFamily 150 120]
    by (simp add: helloParagraph_def spanStart_def div100_def decimal.simps digit_def lit_def)
qed

lemma updateNode_wraps_two_words:
  "updateNode parseHTML parseFontFamily
     (Element (createElement (lit ''P''))
        [Text [0x0646, 0x0635, 0x0020, 0x062C, 0x062F, 0x064A, 0x062F]])
     [0] 150 120 (lit ''Amiri'') =
   Inr (Element (createElement (lit ''P''))
          (parseHTML
             (lit ''<span wudooh='true' style='font-size:1.5em;line-height:1.2em;font-family:'' @
              [0x22] @ lit ''Amiri'' @ [0x22] @ lit '';'>'' @
              [0x0646, 0x0635, 0x0020, 0x062C, 0x062F, 0x064A, 0x062F] @ lit ''</span>'')))"
proof -
  let ?p = "Element (createElement (lit ''P''))
        [Text [0x0646, 0x0635, 0x0020, 0x062C, 0x062F, 0x064A, 0x062F]]"
  have unit: "nodeAt ?p [0] =
     Some (Text ([] @ 0x0646 # [0x0635, 0x0020, 0x062C, 0x062F, 0x064A, 0x062F] @ []))"
    by simp
  have pre: "list_all (\<lambda>c. \<not> isArabic c) []"
    by simp
  have c: "isArabic 0x0646"
    by (simp add: isArabic_def)
  have m: "list_all isTail [0x0635, 0x0020, 0x062C, 0x062F, 0x064A, 0x062F]"
    by (simp add: isTail_def isArabic_def isWordChar_def isDigit_def)
  have bound: "case [] :: jstring of [] \<Rightarrow> True | d # _ \<Rightarrow> \<not> isTail d"
    by simp
  have parent: "parentNode ?p [0] = Some ?p"
    by (simp add: parentNode_def)
  have unwrapped: "\<not> hasBeenUpdated ?p [0]"
    by (simp add: hasBeenUpdated_def parentElement_def parentNode_def
        createElement_def getAttribute_def)
  have editable: "\<not> isEditable ?p"
    by (simp add: createElement_def htmlEditables_def toLowerCase_def lit_def)
  have font: "0x24 \<notin> set (lit ''Amiri'')"
    by (simp add: lit_def)
  show ?thesis
    using updateNode_wraps_match [OF unit pre c m bound pre parent unwrapped editable font,
        of parseHTML parseFontFamily 150 120]
    by (simp add: spanStart_def div100_def decimal.simps digit_def lit_def)
qed

section \<open>The font family of a wrapped unit\<close>

text \<open>
  On a wrapped unit with a non-empty value the font \<^verbatim>\<open>Original\<close> removes the font family
  of the wrapper. Every other font is assigned as it is: the wrapper gets the family
  that the browser reads in that string, and keeps its family when the browser reads
  none.
\<close>

lemma updateNode_wrapped_fontFamily:
  assumes unit: "nodeAt root p = Some (Text s)" and s: "s \<noteq> []"
    and parent: "parentNode root p = Some (Element e cs)"
    and marker: "getAttribute e (lit ''wudooh'') = Some (lit ''true'')"
  shows "updateNode parseHTML parseFontFamily root p textSize lineHeight' font =
           Inr (modifyAt (\<lambda>_. Element (styled parseFontFamily e textSize lineHeight' font) cs)
                  (butlast p) root) \<and>
         fontFamily (style (styled parseFontFamily e textSize lineHeight' font)) =
           (if font = lit ''Original'' \<or> font = [] then []
            else if isDigit (hd font) then fontFamily (style e)
            else case parseFontFamily font of
                   Some written \<Rightarrow> written
                 | None \<Rightarrow> fontFamily (style e))"
  using updateNode_wrapped_once [OF unit s parent marker]
  by (simp add: styled_def assignFontFamily_def)

definition namedWrapper :: element where
  "namedWrapper =
     (setAttribute (lit ''wudooh'') (lit ''true'') (createElement (lit ''SPAN'')))
       \<lparr>style := \<lparr>fontSize = lit ''1em'', lineHeight = lit ''1em'', fontFamily = lit ''Amiri''\<rparr>\<rparr>"

text \<open>
  Claim C6. For every font but \<^verbatim>\<open>Original\<close> the wrapper is to get that font family, when
  the unit is wrapped and when a wrapped unit is updated. \<open>updateByAdding\<close> writes the
  name between double quotes into the style of the new wrapper. \<open>updateByChanging\<close>
  assigns the bare name to \<^verbatim>\<open>style.fontFamily\<close>, and a name that is no font-family value
  without the quotes is dropped there. \<^verbatim>\<open>1942 report\<close> is such a name, since it begins
  with a digit: a wrapper with the sizes \<^verbatim>\<open>1em\<close> and the family \<^verbatim>\<open>Amiri\<close> gets the new
  sizes and keeps \<^verbatim>\<open>Amiri\<close>, with every browser's parser, while the same call on a unit
  that is not wrapped yet makes a wrapper with \<^verbatim>\<open>font-family:"1942 report";\<close>.
\<close>

theorem updateNode_wrapped_keeps_family:
  "hasBeenUpdated (Element namedWrapper [Text [0x0645, 0x0631]]) [0] \<and>
   updateNode parseHTML parseFontFamily (Element namedWrapper [Text [0x0645, 0x0631]]) [0]
       150 120 (lit ''1942 report'') =
     Inr (Element
            (namedWrapper
               \<lparr>style := \<lparr>fontSize = lit ''1.5em'', lineHeight = lit ''1.2em'',
                           fontFamily = lit ''Amiri''\<rparr>\<rparr>)
            [Text [0x0645, 0x0631]]) \<and>
   updateNode parseHTML parseFontFamily
       (Element (createElement (lit ''P'')) [Text [0x0645, 0x0631]]) [0]
       150 120 (lit ''1942 report'') =
     Inr (Element (createElement (lit ''P''))
            (parseHTML
               (lit ''<span wudooh='true' style='font-size:1.5em;line-height:1.2em;font-family:'' @
                [0x22] @ lit ''1942 report'' @ [0x22] @ lit '';'>'' @
                [0x0645, 0x0631] @ lit ''</span>'')))"
proof (intro conjI)
  show "hasBeenUpdated (Element namedWrapper [Text [0x0645, 0x0631]]) [0]"
    by (simp add: hasBeenUpdated_def parentElement_def parentNode_def namedWrapper_def
        setAttribute_def createElement_def getAttribute_def)
  show "updateNode parseHTML parseFontFamily (Element namedWrapper [Text [0x0645, 0x0631]]) [0]
       150 120 (lit ''1942 report'') =
     Inr (Element
            (namedWrapper
               \<lparr>style := \<lparr>fontSize = lit ''1.5em'', lineHeight = lit ''1.2em'',
                           fontFamily = lit ''Amiri''\<rparr>\<rparr>)
            [Text [0x0645, 0x0631]])"
    by (simp add: updateNode_def Let_def updateByChanging_def assignFontFamily_def isDigit_def
        hasBeenUpdated_def parentElement_def parentNode_def namedWrapper_def setAttribute_def
        createElement_def getAttribute_def div100_def decimal.simps digit_def lit_def)
  let ?p = "Element (createElement (lit ''P'')) [Text [0x0645, 0x0631]]"
  have unit: "nodeAt ?p [0] = Some (Text ([] @ 0x0645 # [0x0631] @ []))"
    by simp
  have pre: "list_all (\<lambda>c. \<not> isArabic c) []"
    by simp
  have c: "isArabic 0x0645"
    by (simp add: isArabic_def)
  have m: "list_all isTail [0x0631]"
    by (simp add: isTail_def isArabic_def)
  have bound: "case [] :: jstring of [] \<Rightarrow> True | d # _ \<Rightarrow> \<not> isTail d"
    by simp
  have parent: "parentNode ?p [0] = Some ?p"
    by (simp add: parentNode_def)
  have unwrapped: "\<not> hasBeenUpdated ?p [0]"
    by (simp add: hasBeenUpdated_def parentElement_def parentNode_def
        createElement_def getAttribute_def)
  have editable: "\<not> isEditable ?p"
    by (simp add: createElement_def htmlEditables_def toLowerCase_def lit_def)
  have font: "0x24 \<notin> set (lit ''1942 report'')"
    by (simp add: lit_def)
  show "updateNode parseHTML parseFontFamily ?p [0] 150 120 (lit ''1942 report'') =
     Inr (Element (createElement (lit ''P''))
            (parseHTML
               (lit ''<span wudooh='true' style='font-size:1.5em;line-height:1.2em;font-family:'' @
                [0x22] @ lit ''1942 report'' @ [0x22] @ lit '';'>'' @
                [0x0645, 0x0631] @ lit ''</span>'')))"
    using updateNode_wraps_match [OF unit pre c m bound pre parent unwrapped editable font,
        of parseHTML parseFontFamily 150 120]
    by (simp add: spanStart_def div100_def decimal.simps digit_def lit_def)
qed

section \<open>Tree Scanner\<close>

text \<open>
  \<open>paths n\<close> lists the nodes of the subtree of \<open>n\<close> in document order, each by its path
  from \<open>n\<close>, which comes first with the empty path; \<open>pathsOf k cs\<close> does so for the
  subtrees of the children \<open>cs\<close>, the first of which has index \<open>k\<close>.
\<close>

fun paths :: "node \<Rightarrow> nat list list"
  and pathsOf :: "nat \<Rightarrow> node list \<Rightarrow> nat list list" where
  "paths (Text s) = [[]]"
| "paths (Comment s) = [[]]"
| "paths (Element e cs) = [] # pathsOf 0 cs"
| "paths (Fragment cs) = [] # pathsOf 0 cs"
| "pathsOf k [] = []"
| "pathsOf k (c # cs) = map ((#) k) (paths c) @ pathsOf (Suc k) cs"

text \<open>
  The tree walker of the browser, as the DOM standard defines \<^verbatim>\<open>TreeWalker.nextNode\<close>. The
  walker has a root and a current node, which is the root when the walker is created.
  From a node the walk goes to the first child if there is one. Otherwise it looks for
  a next sibling, of the node or else of its nearest ancestor that has one, and gives
  up with \<^verbatim>\<open>null\<close> when this search arrives at the root: this is \<open>climb\<close>. All paths are
  paths from the root of the walker.
\<close>

definition firstChild :: "node \<Rightarrow> nat list \<Rightarrow> nat list option" where
  "firstChild root p =
     (case nodeAt root p of
        None \<Rightarrow> None
      | Some n \<Rightarrow> if childNodes n = [] then None else Some (p @ [0]))"

definition nextSibling :: "node \<Rightarrow> nat list \<Rightarrow> nat list option" where
  "nextSibling root p =
     (case parentNode root p of
        None \<Rightarrow> None
      | Some parent \<Rightarrow>
          if Suc (last p) < length (childNodes parent) then Some (butlast p @ [Suc (last p)])
          else None)"

function climb :: "node \<Rightarrow> nat list \<Rightarrow> nat list option" where
  "climb root temporary =
     (if temporary = [] then None
      else (case nextSibling root temporary of
              Some sibling \<Rightarrow> Some sibling
            | None \<Rightarrow> climb root (butlast temporary)))"
  by pat_completeness auto
termination
  by (relation "measure (\<lambda>(root, p). length p)") auto

declare climb.simps [simp del]

definition following :: "node \<Rightarrow> nat list \<Rightarrow> nat list option" where
  "following root node =
     (case firstChild root node of Some child \<Rightarrow> Some child | None \<Rightarrow> climb root node)"

text \<open>
  \<open>after root p\<close> lists the nodes of the tree that come after the node at \<open>p\<close> in document
  order. The walk from \<open>p\<close> visits them one after the other, which is why it ends.
\<close>

fun after :: "node \<Rightarrow> nat list \<Rightarrow> nat list list" where
  "after n [] = pathsOf 0 (childNodes n)"
| "after n (i # q) =
     (if i < length (childNodes n)
      then map ((#) i) (after (childNodes n ! i) q) @
           pathsOf (Suc i) (drop (Suc i) (childNodes n))
      else [])"

lemma paths_eq: "paths n = [] # pathsOf 0 (childNodes n)"
  by (cases n) simp_all

lemma pathsOf_Cons: "pathsOf k (c # cs) = [k] # map ((#) k) (pathsOf 0 (childNodes c)) @ pathsOf (Suc k) cs"
  by (simp add: paths_eq)

lemma nodeAt_Cons_valid:
  "nodeAt root (i # q) = Some n \<Longrightarrow> i < length (childNodes root) \<and> nodeAt (childNodes root ! i) q = Some n"
  by (simp split: if_splits)

lemma firstChild_Cons:
  "i < length (childNodes root) \<Longrightarrow>
   firstChild root (i # q) = map_option ((#) i) (firstChild (childNodes root ! i) q)"
  by (simp add: firstChild_def split: option.splits)

lemma nextSibling_Cons:
  "i < length (childNodes root) \<Longrightarrow> q \<noteq> [] \<Longrightarrow>
   nextSibling root (i # q) = map_option ((#) i) (nextSibling (childNodes root ! i) q)"
  by (simp add: nextSibling_def parentNode_def split: option.splits)

lemma nextSibling_single:
  "nextSibling root [i] = (if Suc i < length (childNodes root) then Some [Suc i] else None)"
  by (simp add: nextSibling_def parentNode_def)

lemma climb_Nil [simp]: "climb root [] = None"
  by (subst climb.simps) simp

lemma climb_Cons:
  "i < length (childNodes root) \<Longrightarrow>
   climb root (i # q) =
     (case climb (childNodes root ! i) q of
        Some s \<Rightarrow> Some (i # s)
      | None \<Rightarrow> if Suc i < length (childNodes root) then Some [Suc i] else None)"
proof (induction q rule: rev_induct)
  case Nil
  have "climb root [i] = (if Suc i < length (childNodes root) then Some [Suc i] else None)"
    by (subst climb.simps) (simp add: nextSibling_single)
  then show ?case by simp
next
  case (snoc x q)
  have "climb root (i # q @ [x]) =
        (case nextSibling root (i # q @ [x]) of
           Some sibling \<Rightarrow> Some sibling
         | None \<Rightarrow> climb root (i # q))"
    by (subst climb.simps) (simp split: option.splits)
  also have "nextSibling root (i # q @ [x]) =
             map_option ((#) i) (nextSibling (childNodes root ! i) (q @ [x]))"
    using snoc.prems by (simp add: nextSibling_Cons)
  finally have "climb root (i # q @ [x]) =
      (case map_option ((#) i) (nextSibling (childNodes root ! i) (q @ [x])) of
         Some sibling \<Rightarrow> Some sibling
       | None \<Rightarrow> climb root (i # q))" .
  moreover have "climb (childNodes root ! i) (q @ [x]) =
      (case nextSibling (childNodes root ! i) (q @ [x]) of
         Some sibling \<Rightarrow> Some sibling
       | None \<Rightarrow> climb (childNodes root ! i) q)"
    by (subst climb.simps) (simp split: option.splits)
  ultimately show ?case
    using snoc.IH [OF snoc.prems] by (simp split: option.splits)
qed


lemma following_Cons:
  "i < length (childNodes root) \<Longrightarrow>
   following root (i # q) =
     (case following (childNodes root ! i) q of
        Some s \<Rightarrow> Some (i # s)
      | None \<Rightarrow> if Suc i < length (childNodes root) then Some [Suc i] else None)"
  by (simp add: following_def firstChild_Cons climb_Cons split: option.splits)

lemma following_Nil:
  "following root [] = (if childNodes root = [] then None else Some [0])"
  by (simp add: following_def firstChild_def)

lemma pathsOf_drop:
  "i < length cs \<Longrightarrow>
   pathsOf i (drop i cs) = [i] # map ((#) i) (pathsOf 0 (childNodes (cs ! i))) @
     pathsOf (Suc i) (drop (Suc i) cs)"
  by (simp add: Cons_nth_drop_Suc [symmetric] paths_eq)

lemma following_after:
  "nodeAt root p = Some n \<Longrightarrow>
   following root p = (case after root p of [] \<Rightarrow> None | s # rest \<Rightarrow> Some s)"
proof (induction p arbitrary: root)
  case Nil
  show ?case
    by (cases "childNodes root") (simp_all add: following_Nil paths_eq)
next
  case (Cons i q)
  from Cons.prems have i: "i < length (childNodes root)"
    and q: "nodeAt (childNodes root ! i) q = Some n"
    by (simp_all split: if_splits)
  show ?case
  proof (cases "after (childNodes root ! i) q")
    case Nil
    then have "following (childNodes root ! i) q = None"
      using Cons.IH [OF q] by simp
    with Nil i show ?thesis
      by (simp add: following_Cons pathsOf_drop)
  next
    case (Cons s rest)
    then have "following (childNodes root ! i) q = Some s"
      using Cons.IH [OF q] by simp
    with Cons i show ?thesis
      by (simp add: following_Cons)
  qed
qed

lemma after_step:
  "nodeAt root p = Some n \<Longrightarrow> after root p = s # rest \<Longrightarrow>
   after root s = rest \<and> (\<exists>m. nodeAt root s = Some m)"
proof (induction p arbitrary: root s rest)
  case Nil
  then obtain c cs where cs: "childNodes root = c # cs"
    by (cases "childNodes root") simp_all
  with Nil show ?case
    by (auto simp add: paths_eq drop_Suc)
next
  case (Cons i q)
  from Cons.prems(1) have i: "i < length (childNodes root)"
    and q: "nodeAt (childNodes root ! i) q = Some n"
    by (simp_all split: if_splits)
  show ?case
  proof (cases "after (childNodes root ! i) q")
    case Nil
    with Cons.prems(2) i have eq: "pathsOf (Suc i) (drop (Suc i) (childNodes root)) = s # rest"
      by simp
    then have j: "Suc i < length (childNodes root)"
      by (cases "Suc i < length (childNodes root)") simp_all
    from eq pathsOf_drop [OF j] have "s = [Suc i]"
      and "rest = map ((#) (Suc i)) (pathsOf 0 (childNodes (childNodes root ! Suc i))) @
                  pathsOf (Suc (Suc i)) (drop (Suc (Suc i)) (childNodes root))"
      by simp_all
    with j show ?thesis by simp
  next
    case (Cons s' rest')
    with Cons.prems(2) i have s: "s = i # s'"
      and rest: "rest = map ((#) i) rest' @ pathsOf (Suc i) (drop (Suc i) (childNodes root))"
      by simp_all
    from Cons.IH [OF q Cons] have "after (childNodes root ! i) s' = rest'"
      and "\<exists>m. nodeAt (childNodes root ! i) s' = Some m"
      by simp_all
    with s rest i show ?thesis by simp
  qed
qed


text \<open>
  The filter \<^verbatim>\<open>NodeFilter.SHOW_TEXT\<close> accepts text nodes and skips all others, and
  \<^verbatim>\<open>nextNode\<close> walks on until the filter accepts a node, which becomes the current node
  and the result.
\<close>

definition isTextAt :: "node \<Rightarrow> nat list \<Rightarrow> bool" where
  "isTextAt root p = (case nodeAt root p of Some (Text s) \<Rightarrow> True | _ \<Rightarrow> False)"

lemma following_shorter:
  "nodeAt root current = Some n \<Longrightarrow> following root current = Some node \<Longrightarrow>
   after root current = node # after root node \<and> (\<exists>m. nodeAt root node = Some m)"
proof -
  assume valid: "nodeAt root current = Some n" and f: "following root current = Some node"
  from following_after [OF valid] f obtain rest where "after root current = node # rest"
    by (cases "after root current") simp_all
  with after_step [OF valid this] show ?thesis by simp
qed

function nextNode :: "node \<Rightarrow> nat list \<Rightarrow> nat list option" where
  "nextNode root current =
     (case nodeAt root current of
        None \<Rightarrow> None
      | Some n \<Rightarrow>
          (case following root current of
             None \<Rightarrow> None
           | Some node \<Rightarrow> if isTextAt root node then Some node else nextNode root node))"
  by pat_completeness auto
termination
  by (relation "measure (\<lambda>(root, p). length (after root p))")
    (auto dest: following_shorter)

declare nextNode.simps [simp del]

lemma nextNode_after:
  "nodeAt root p = Some n \<Longrightarrow>
   (case nextNode root p of
      None \<Rightarrow> filter (isTextAt root) (after root p) = []
    | Some m \<Rightarrow> filter (isTextAt root) (after root p) = m # filter (isTextAt root) (after root m) \<and>
               length (after root m) < length (after root p) \<and> (\<exists>k. nodeAt root m = Some k))"
proof (induction root p arbitrary: n rule: nextNode.induct)
  case (1 root current)
  show ?case
  proof (cases "following root current")
    case None
    then have "after root current = []"
      using following_after [OF "1.prems"] by (cases "after root current") simp_all
    with None "1.prems" show ?thesis
      by (subst nextNode.simps) simp
  next
    case (Some node)
    from following_shorter [OF "1.prems" Some] obtain k
      where after: "after root current = node # after root node"
        and valid: "nodeAt root node = Some k" by blast
    show ?thesis
    proof (cases "isTextAt root node")
      case True
      with Some "1.prems" after valid show ?thesis
        by (subst nextNode.simps) simp
    next
      case False
      have eq: "nextNode root current = nextNode root node"
        using Some "1.prems" False by (subst nextNode.simps) simp
      from "1.IH" [OF "1.prems" Some False valid] False after show ?thesis
        unfolding eq by (auto split: option.splits)
    qed
  qed
qed

text \<open>
  The loop of \<open>getArabicTextNodesIn\<close>: \<open>scan\<close> takes the result of the last call of
  \<^verbatim>\<open>nextNode\<close>, which is also the current node of the walker, and the array built so
  far. The walker is created with the root as its current node.
\<close>

definition hasArabicScriptAt :: "node \<Rightarrow> nat list \<Rightarrow> bool" where
  "hasArabicScriptAt root p =
     (case nodeAt root p of None \<Rightarrow> False | Some node \<Rightarrow> hasArabicScript node)"

function scan :: "node \<Rightarrow> nat list option \<Rightarrow> nat list list \<Rightarrow> nat list list" where
  "scan root None arabicTextNodes = arabicTextNodes"
| "scan root (Some node) arabicTextNodes =
     scan root (nextNode root node)
       (if hasArabicScriptAt root node then arabicTextNodes @ [node] else arabicTextNodes)"
  by pat_completeness auto
termination
proof (relation "measure (\<lambda>(root, node, acc).
    case node of None \<Rightarrow> 0
    | Some p \<Rightarrow> (case nodeAt root p of None \<Rightarrow> 1 | Some n \<Rightarrow> 2 + length (after root p)))")
  show "wf (measure (\<lambda>(root, node, acc).
    case node of None \<Rightarrow> 0
    | Some p \<Rightarrow> (case nodeAt root p of None \<Rightarrow> 1 | Some n \<Rightarrow> 2 + length (after root p))))"
    by simp
next
  fix root :: node and node :: "nat list" and arabicTextNodes :: "nat list list"
  show "((root, nextNode root node,
          if hasArabicScriptAt root node then arabicTextNodes @ [node] else arabicTextNodes),
         (root, Some node, arabicTextNodes))
        \<in> measure (\<lambda>(root, node, acc).
            case node of None \<Rightarrow> 0
            | Some p \<Rightarrow> (case nodeAt root p of None \<Rightarrow> 1 | Some n \<Rightarrow> 2 + length (after root p)))"
  proof (cases "nodeAt root node")
    case None
    then have "nextNode root node = None"
      by (subst nextNode.simps) simp
    with None show ?thesis by simp
  next
    case (Some n)
    from nextNode_after [OF Some] Some show ?thesis
      by (auto split: option.splits)
  qed
qed

definition getArabicTextNodesIn :: "node \<Rightarrow> nat list list" where
  "getArabicTextNodesIn rootNode = scan rootNode (nextNode rootNode []) []"

lemma scan_filter:
  "nodeAt root p = Some n \<Longrightarrow>
   scan root (nextNode root p) acc =
     acc @ filter (hasArabicScriptAt root) (filter (isTextAt root) (after root p))"
proof (induction "length (after root p)" arbitrary: p n acc rule: less_induct)
  case less
  show ?case
  proof (cases "nextNode root p")
    case None
    with nextNode_after [OF less.prems] show ?thesis by simp
  next
    case (Some m)
    with nextNode_after [OF less.prems] obtain k
      where eq: "filter (isTextAt root) (after root p) = m # filter (isTextAt root) (after root m)"
        and shorter: "length (after root m) < length (after root p)"
        and valid: "nodeAt root m = Some k" by auto
    show ?thesis
      unfolding Some eq
      by (simp add: less.hyps [OF shorter valid])
  qed
qed


text \<open>
  Document order on paths: an ancestor comes before its descendants, and a node before
  the subtrees of its later siblings.
\<close>

fun precedes :: "nat list \<Rightarrow> nat list \<Rightarrow> bool" where
  "precedes [] [] \<longleftrightarrow> False"
| "precedes [] (j # q) \<longleftrightarrow> True"
| "precedes (i # p) [] \<longleftrightarrow> False"
| "precedes (i # p) (j # q) \<longleftrightarrow> i < j \<or> (i = j \<and> precedes p q)"

lemma paths_iff:
  "p \<in> set (paths n) \<longleftrightarrow> nodeAt n p \<noteq> None"
  "p \<in> set (pathsOf k cs) \<longleftrightarrow>
     (\<exists>i q. p = (k + i) # q \<and> i < length cs \<and> nodeAt (cs ! i) q \<noteq> None)"
proof (induction n and k cs arbitrary: p and p rule: paths_pathsOf.induct)
  case (1 s)
  show ?case by (cases p) auto
next
  case (2 s)
  show ?case by (cases p) auto
next
  case (3 e cs)
  show ?case
  proof (cases p)
    case Nil
    then show ?thesis by simp
  next
    case (Cons i q)
    then show ?thesis using "3" [of p] by auto
  qed
next
  case (4 cs)
  show ?case
  proof (cases p)
    case Nil
    then show ?thesis by simp
  next
    case (Cons i q)
    then show ?thesis using "4" [of p] by auto
  qed
next
  case (5 k)
  show ?case by simp
next
  case (6 k c cs)
  show ?case
  proof
    assume "p \<in> set (pathsOf k (c # cs))"
    then consider q where "p = k # q" "q \<in> set (paths c)"
      | "p \<in> set (pathsOf (Suc k) cs)"
      by auto
    then show "\<exists>i q. p = (k + i) # q \<and> i < length (c # cs) \<and> nodeAt ((c # cs) ! i) q \<noteq> None"
    proof cases
      case 1
      then have "nodeAt c q \<noteq> None" using "6.IH"(1) by blast
      with 1 show ?thesis by (intro exI [of _ 0] exI [of _ q]) simp
    next
      case 2
      then obtain i q where "p = (Suc k + i) # q" "i < length cs" "nodeAt (cs ! i) q \<noteq> None"
        using "6.IH"(2) by blast
      then show ?thesis by (intro exI [of _ "Suc i"] exI [of _ q]) simp
    qed
  next
    assume "\<exists>i q. p = (k + i) # q \<and> i < length (c # cs) \<and> nodeAt ((c # cs) ! i) q \<noteq> None"
    then obtain i q where *: "p = (k + i) # q" "i < length (c # cs)"
      "nodeAt ((c # cs) ! i) q \<noteq> None" by blast
    show "p \<in> set (pathsOf k (c # cs))"
    proof (cases i)
      case 0
      with * have "q \<in> set (paths c)" using "6.IH"(1) by auto
      with * 0 show ?thesis by simp
    next
      case (Suc j)
      with * have "p \<in> set (pathsOf (Suc k) cs)"
        using "6.IH"(2) [of p] by auto
      then show ?thesis by simp
    qed
  qed
qed

lemma paths_sorted:
  "sorted_wrt precedes (paths n)"
  "sorted_wrt precedes (pathsOf k cs)"
proof (induction n and k cs rule: paths_pathsOf.induct)
  case (3 e cs)
  have "precedes [] q" if "q \<in> set (pathsOf 0 cs)" for q
    using that unfolding paths_iff by auto
  with 3 show ?case by simp
next
  case (4 cs)
  have "precedes [] q" if "q \<in> set (pathsOf 0 cs)" for q
    using that unfolding paths_iff by auto
  with 4 show ?case by simp
next
  case (6 k c cs)
  have "precedes p q" if "p \<in> set (map ((#) k) (paths c))" "q \<in> set (pathsOf (Suc k) cs)"
    for p q
  proof -
    from that(1) obtain p' where "p = k # p'" by auto
    moreover from that(2) obtain i q' where "q = (Suc k + i) # q'"
      unfolding paths_iff by blast
    ultimately show ?thesis by simp
  qed
  with 6 show ?case
    by (simp add: sorted_wrt_append sorted_wrt_map)
qed simp_all

lemma below_iff:
  "p \<in> set (pathsOf 0 (childNodes root)) \<longleftrightarrow> p \<noteq> [] \<and> nodeAt root p \<noteq> None"
proof (cases p)
  case Nil
  then show ?thesis by (simp add: paths_iff)
next
  case (Cons i q)
  then show ?thesis
    by (auto simp add: paths_iff)
qed

lemma precedes_irrefl: "\<not> precedes p p"
  by (induction p) simp_all

lemma sorted_precedes_distinct: "sorted_wrt precedes ps \<Longrightarrow> distinct ps"
  by (induction ps) (auto simp: precedes_irrefl)

lemma isTextAt_iff: "isTextAt root p \<longleftrightarrow> (\<exists>s. nodeAt root p = Some (Text s))"
proof (cases "nodeAt root p")
  case None
  then show ?thesis by (simp add: isTextAt_def)
next
  case (Some n)
  then show ?thesis by (cases n) (simp_all add: isTextAt_def)
qed

text \<open>
  Claim C4, as amended. For every root, \<open>getArabicTextNodesIn\<close> returns a finite list that
  holds exactly the text nodes strictly below the root for which \<open>hasArabicScript\<close> is
  true, each once and in document order. The root itself is never in it, whether or not
  it is a matching text node. The list is a function of the tree alone: it is complete
  before anything is done with its elements.
\<close>

theorem getArabicTextNodesIn_descendants:
  "set (getArabicTextNodesIn root) =
     {p. p \<noteq> [] \<and> (\<exists>s. nodeAt root p = Some (Text s) \<and> hasArabicScript (Text s))} \<and>
   sorted_wrt precedes (getArabicTextNodesIn root) \<and>
   distinct (getArabicTextNodesIn root) \<and>
   [] \<notin> set (getArabicTextNodesIn root)"
proof -
  have eq: "getArabicTextNodesIn root =
      filter (hasArabicScriptAt root) (filter (isTextAt root) (pathsOf 0 (childNodes root)))"
    using scan_filter [of root "[]" root "[]"] by (simp add: getArabicTextNodesIn_def)
  have "set (filter (hasArabicScriptAt root) (filter (isTextAt root) (pathsOf 0 (childNodes root)))) =
        {p. p \<noteq> [] \<and> (\<exists>s. nodeAt root p = Some (Text s) \<and> hasArabicScript (Text s))}"
    by (auto simp add: below_iff hasArabicScriptAt_def isTextAt_iff)
  moreover have "sorted_wrt precedes
      (filter (hasArabicScriptAt root) (filter (isTextAt root) (pathsOf 0 (childNodes root))))"
    by (intro sorted_wrt_filter paths_sorted)
  ultimately show ?thesis
    by (simp add: eq sorted_precedes_distinct)
qed

text \<open>
  Claim C4 as stated includes the root when it is a text node that matches. For such a
  root the walker has no child to go to and is at its root, so the first \<^verbatim>\<open>nextNode\<close>
  returns \<^verbatim>\<open>null\<close> and the result is empty.
\<close>

theorem getArabicTextNodesIn_root_counterexample:
  "hasArabicScript (Text [0x0645, 0x0631]) \<and> getArabicTextNodesIn (Text [0x0645, 0x0631]) = []"
proof -
  have "match [0x0645, 0x0631] \<noteq> None"
    by (simp add: match_None_iff isArabic_def)
  moreover have "nextNode (Text [0x0645, 0x0631]) [] = None"
    by (subst nextNode.simps) (simp add: following_def firstChild_def)
  ultimately show ?thesis
    by (simp add: hasArabicScript_def getArabicTextNodesIn_def)
qed

section \<open>Mutation Watcher\<close>

text \<open>
  The parameters that a callback captures are the text size, the line height and the
  font; a size that the caller left out is \<^verbatim>\<open>undefined\<close>. The state of the page is its
  document, the variable \<open>observer\<close> (a \<^verbatim>\<open>MutationObserver\<close> object, known by the number
  of its creation, or nothing), and on the side of the browser the observers that are
  observing \<^verbatim>\<open>document.body\<close>, each with the parameters of its callback.
\<close>

type_synonym params = "nat option \<times> nat option \<times> jstring"

record 'd page =
  doc :: 'd
  observer :: "nat option"
  observing :: "(nat \<times> params) list"
  allocated :: nat

definition startObserver :: "params \<Rightarrow> 'd page \<Rightarrow> 'd page" where
  "startObserver ps pg =
     (case observer pg of
        None \<Rightarrow>
          pg\<lparr>observer := Some (allocated pg),
             observing := observing pg @ [(allocated pg, ps)],
             allocated := Suc (allocated pg)\<rparr>
      | Some _ \<Rightarrow> pg)"

definition disconnect :: "nat \<Rightarrow> 'd page \<Rightarrow> 'd page" where
  "disconnect i pg = pg\<lparr>observing := filter (\<lambda>(j, ps). j \<noteq> i) (observing pg)\<rparr>"

text \<open>
  A message has one of the two known reasons with its fields, or another reason or none.
  A font that is left out becomes \<^verbatim>\<open>defaultFont\<close>, a constant of \<^verbatim>\<open>shared.ts\<close> and a
  parameter here. What \<^verbatim>\<open>updateAll\<close> and \<^verbatim>\<open>injectCustomFonts\<close> do to the document is
  of no concern to the observer: they are parameters too, which change the document only.
\<close>

datatype message =
    UpdateAllText "nat option" "nat option" "jstring option"
  | InjectCustomFonts "CustomFont list"
  | OtherMessage

definition orDefault :: "jstring \<Rightarrow> jstring option \<Rightarrow> jstring" where
  "orDefault defaultFont font = (case font of None \<Rightarrow> defaultFont | Some f \<Rightarrow> f)"

fun onMessage ::
  "(params \<Rightarrow> 'd \<Rightarrow> 'd) \<Rightarrow> (CustomFont list \<Rightarrow> 'd \<Rightarrow> 'd) \<Rightarrow> jstring \<Rightarrow> message \<Rightarrow> 'd page \<Rightarrow> 'd page" where
  "onMessage updateAll inject defaultFont (UpdateAllText newSize newHeight font) pg =
     (let pg1 = pg\<lparr>doc := updateAll (newSize, newHeight, orDefault defaultFont font) (doc pg)\<rparr>;
          pg2 = (case observer pg1 of
                   Some i \<Rightarrow> (disconnect i pg1)\<lparr>observer := None\<rparr>
                 | None \<Rightarrow> pg1)
      in startObserver (newSize, newHeight, orDefault defaultFont font) pg2)"
| "onMessage updateAll inject defaultFont (InjectCustomFonts customFonts) pg =
     pg\<lparr>doc := inject customFonts (doc pg)\<rparr>"
| "onMessage updateAll inject defaultFont OtherMessage pg = pg"

text \<open>
  The two ways in which the code reaches the observer: \<^verbatim>\<open>main\<close> starts it once the
  settings are read, and the listener handles a message.
\<close>

datatype event = Start params | Receive message

fun step ::
  "(params \<Rightarrow> 'd \<Rightarrow> 'd) \<Rightarrow> (CustomFont list \<Rightarrow> 'd \<Rightarrow> 'd) \<Rightarrow> jstring \<Rightarrow> event \<Rightarrow> 'd page \<Rightarrow> 'd page" where
  "step updateAll inject defaultFont (Start ps) pg = startObserver ps pg"
| "step updateAll inject defaultFont (Receive m) pg = onMessage updateAll inject defaultFont m pg"

definition loaded :: "'d \<Rightarrow> 'd page" where
  "loaded d = \<lparr>doc = d, observer = None, observing = [], allocated = 0\<rparr>"

text \<open>The invariant: the observers that are observing are exactly the one in the variable, if any.\<close>

definition single :: "'d page \<Rightarrow> bool" where
  "single pg \<longleftrightarrow>
     map fst (observing pg) = (case observer pg of None \<Rightarrow> [] | Some i \<Rightarrow> [i])"

lemma single_loaded: "single (loaded d)"
  by (simp add: single_def loaded_def)

lemma single_startObserver: "single pg \<Longrightarrow> single (startObserver ps pg)"
  by (auto simp: single_def startObserver_def split: option.splits)

lemma single_onMessage: "single pg \<Longrightarrow> single (onMessage updateAll inject defaultFont m pg)"
  by (cases m) (auto simp: single_def startObserver_def disconnect_def Let_def split: option.splits)

lemma single_step: "single pg \<Longrightarrow> single (step updateAll inject defaultFont ev pg)"
  by (cases ev) (simp_all add: single_startObserver single_onMessage)

lemma single_fold:
  "single pg \<Longrightarrow> single (fold (step updateAll inject defaultFont) evs pg)"
  by (induction evs arbitrary: pg) (simp_all add: single_step)

lemma single_length: "single pg \<Longrightarrow> length (observing pg) \<le> 1"
proof -
  assume "single pg"
  then have "length (map fst (observing pg)) \<le> 1"
    by (simp add: single_def split: option.splits)
  then show ?thesis by simp
qed

lemma restart:
  "single pg \<Longrightarrow>
   observing (onMessage updateAll inject defaultFont (UpdateAllText a b font) pg) =
     [(allocated pg, (a, b, orDefault defaultFont font))] \<and>
   observer (onMessage updateAll inject defaultFont (UpdateAllText a b font) pg) =
     Some (allocated pg)"
  by (cases "observer pg")
    (auto simp: single_def startObserver_def disconnect_def Let_def
      filter_empty_conv split: option.splits)


text \<open>
  Claim C5. In every state that the page reaches from its load by starts and messages,
  at most one observer is observing, and it is the one that the variable holds.
  \<open>startObserver\<close> does nothing while the variable holds an observer. An
  \<^verbatim>\<open>updateAllText\<close> message disconnects that observer, clears the variable and starts a new
  one: afterwards exactly one observer is observing, the new one, and its callback has
  the parameters of the message.
\<close>

theorem one_observer:
  assumes reach: "pg = fold (step updateAll inject defaultFont) evs (loaded d)"
  shows "length (observing pg) \<le> 1 \<and>
         map fst (observing pg) = (case observer pg of None \<Rightarrow> [] | Some i \<Rightarrow> [i]) \<and>
         (observer pg \<noteq> None \<longrightarrow> startObserver ps pg = pg) \<and>
         observing (onMessage updateAll inject defaultFont (UpdateAllText a b font) pg) =
           [(allocated pg, (a, b, orDefault defaultFont font))] \<and>
         observer (onMessage updateAll inject defaultFont (UpdateAllText a b font) pg) =
           Some (allocated pg)"
proof -
  have one: "single pg"
    unfolding reach by (intro single_fold single_loaded)
  have noop: "observer pg \<noteq> None \<longrightarrow> startObserver ps pg = pg"
    by (auto simp: startObserver_def)
  show ?thesis
    using one single_length [OF one] noop restart [OF one, of updateAll inject defaultFont a b font]
    by (simp add: single_def)
qed

text \<open>\<open>unchanged\<close> is the document operation that does nothing.\<close>

definition unchanged :: "'a \<Rightarrow> 'd \<Rightarrow> 'd" where
  "unchanged x d = d"

theorem one_observer_witness:
  "startObserver (Some 100, Some 100, lit ''Original'') (loaded ()) =
     fold (step unchanged unchanged (lit ''Original''))
       [Start (Some 100, Some 100, lit ''Original'')] (loaded ()) \<and>
   observer (startObserver (Some 100, Some 100, lit ''Original'') (loaded ())) = Some 0 \<and>
   startObserver (Some 150, Some 120, lit ''Noto'')
       (startObserver (Some 100, Some 100, lit ''Original'') (loaded ())) =
     startObserver (Some 100, Some 100, lit ''Original'') (loaded ()) \<and>
   observing (onMessage unchanged unchanged (lit ''Original'')
       (UpdateAllText (Some 150) (Some 120) (Some (lit ''Noto'')))
       (startObserver (Some 100, Some 100, lit ''Original'') (loaded ()))) =
     [(1, (Some 150, Some 120, lit ''Noto''))]"
proof -
  have reach: "startObserver (Some 100, Some 100, lit ''Original'') (loaded ()) =
     fold (step unchanged unchanged (lit ''Original''))
       [Start (Some 100, Some 100, lit ''Original'')] (loaded ())"
    by simp
  have handle: "observer (startObserver (Some 100, Some 100, lit ''Original'') (loaded ())) = Some 0"
    "allocated (startObserver (Some 100, Some 100, lit ''Original'') (loaded ())) = 1"
    by (simp_all add: startObserver_def loaded_def)
  show ?thesis
    using reach handle
      one_observer [OF reach, of "(Some 150, Some 120, lit ''Noto'')" "Some 150" "Some 120"
        "Some (lit ''Noto'')"]
    by (simp add: orDefault_def)
qed

section \<open>Background page: initialising the settings\<close>

text \<open>
  The settings store holds seven keys; a key without a stored value reads as
  \<^verbatim>\<open>undefined\<close>, which is \<open>None\<close> here. A per-site setting is the site's host name
  with its text size, line height and font; a custom font is the record that
  \<open>injectCustomFonts\<close> takes. The default values are constants of
  \<^verbatim>\<open>shared.ts\<close> and are parameters of the model.
\<close>

type_synonym CustomSettings = "jstring \<times> nat \<times> nat \<times> jstring"

record WudoohStorage =
  textSize :: "nat option"
  lineHeight :: "nat option"
  onOff :: "bool option"
  font :: "jstring option"
  whitelisted :: "jstring list option"
  customSettings :: "CustomSettings list option"
  customFonts :: "CustomFont list option"

record defaults =
  defaultTextSize :: nat
  defaultLineHeight :: nat
  defaultFont :: jstring

text \<open>
  \<open>writeIf c write\<close> is the statement \<^verbatim>\<open>if (c) sync.set({...})\<close>: the write happens only
  under the condition, which the handlers evaluate on the snapshot \<open>storage\<close> that
  \<^verbatim>\<open>sync.get(keys)\<close> returned. Every write is to a key of its own, so the order in which
  the pending writes complete does not matter.
\<close>

definition writeIf ::
  "bool \<Rightarrow> (WudoohStorage \<Rightarrow> WudoohStorage) \<Rightarrow> WudoohStorage \<Rightarrow> WudoohStorage" where
  "writeIf c write st = (if c then write st else st)"

text \<open>
  \<^verbatim>\<open>src/background.ts\<close> tests each key with \<^verbatim>\<open>== null\<close>, true of \<^verbatim>\<open>undefined\<close> and
  \<^verbatim>\<open>null\<close> only.
\<close>

definition initialize :: "defaults \<Rightarrow> WudoohStorage \<Rightarrow> WudoohStorage \<Rightarrow> WudoohStorage" where
  "initialize d storage =
     writeIf (customFonts storage = None) (\<lambda>st. st\<lparr>customFonts := Some []\<rparr>) \<circ>
     writeIf (customSettings storage = None) (\<lambda>st. st\<lparr>customSettings := Some []\<rparr>) \<circ>
     writeIf (whitelisted storage = None) (\<lambda>st. st\<lparr>whitelisted := Some []\<rparr>) \<circ>
     writeIf (font storage = None) (\<lambda>st. st\<lparr>font := Some (defaultFont d)\<rparr>) \<circ>
     writeIf (onOff storage = None) (\<lambda>st. st\<lparr>onOff := Some True\<rparr>) \<circ>
     writeIf (lineHeight storage = None) (\<lambda>st. st\<lparr>lineHeight := Some (defaultLineHeight d)\<rparr>) \<circ>
     writeIf (textSize storage = None) (\<lambda>st. st\<lparr>textSize := Some (defaultTextSize d)\<rparr>)"

datatype install_reason = Install | Update | OtherReason

text \<open>
  The background page of \<^verbatim>\<open>src/background.ts\<close>: the store, the pages it opened with
  \<^verbatim>\<open>tabs.create\<close> and the messages it sent, each with the tab it went to.
\<close>

record background =
  sync :: WudoohStorage
  created :: "jstring list"
  sent :: "(nat \<times> jstring) list"

definition onInstalled ::
  "defaults \<Rightarrow> install_reason \<Rightarrow> nat list \<Rightarrow> background \<Rightarrow> background" where
  "onInstalled d reason allTabs bg =
     (let bg1 = (if reason = Update
                 then bg\<lparr>created := created bg @ [lit ''https://wudooh.app/updated'']\<rparr>
                 else bg);
          bg2 = bg1\<lparr>sync := initialize d (sync bg1) (sync bg1)\<rparr>
      in bg2\<lparr>sent := sent bg2 @
               (if onOff (sync bg2) = Some True
                then map (\<lambda>tab. (tab, lit ''updateAllText'')) allTabs else [])\<rparr>)"

text \<open>
  The other background script of the repository (\<^verbatim>\<open>part_000\<close>) tests each key with
  \<^verbatim>\<open>!\<close>, which is true of every falsy value: of \<^verbatim>\<open>undefined\<close>, and also of the number
  0, of \<^verbatim>\<open>false\<close> and of the empty string; an array is never falsy. It keeps
  \<open>customFonts\<close> in the local store, and does nothing else on install or update.
\<close>

definition falsyNumber :: "nat option \<Rightarrow> bool" where
  "falsyNumber v \<longleftrightarrow> v = None \<or> v = Some 0"

definition falsyBoolean :: "bool option \<Rightarrow> bool" where
  "falsyBoolean v \<longleftrightarrow> v = None \<or> v = Some False"

definition falsyString :: "jstring option \<Rightarrow> bool" where
  "falsyString v \<longleftrightarrow> v = None \<or> v = Some []"

definition initialize_part_000 ::
  "defaults \<Rightarrow> WudoohStorage \<Rightarrow> WudoohStorage \<Rightarrow> WudoohStorage" where
  "initialize_part_000 d fromStorage =
     writeIf (customSettings fromStorage = None) (\<lambda>st. st\<lparr>customSettings := Some []\<rparr>) \<circ>
     writeIf (whitelisted fromStorage = None) (\<lambda>st. st\<lparr>whitelisted := Some []\<rparr>) \<circ>
     writeIf (falsyString (font fromStorage)) (\<lambda>st. st\<lparr>font := Some (defaultFont d)\<rparr>) \<circ>
     writeIf (falsyBoolean (onOff fromStorage)) (\<lambda>st. st\<lparr>onOff := Some True\<rparr>) \<circ>
     writeIf (falsyNumber (lineHeight fromStorage))
       (\<lambda>st. st\<lparr>lineHeight := Some (defaultLineHeight d)\<rparr>) \<circ>
     writeIf (falsyNumber (textSize fromStorage))
       (\<lambda>st. st\<lparr>textSize := Some (defaultTextSize d)\<rparr>)"

definition onInstalled_part_000 ::
  "defaults \<Rightarrow> WudoohStorage \<times> CustomFont list option \<Rightarrow>
   WudoohStorage \<times> CustomFont list option" where
  "onInstalled_part_000 d stores =
     (case stores of (syncStore, localFonts) \<Rightarrow>
        (initialize_part_000 d syncStore syncStore,
         (if localFonts = None then Some [] else localFonts)))"

lemma writeIf_apply: "f (writeIf c write st) = (if c then f (write st) else f st)"
  by (simp add: writeIf_def)

lemma sync_onInstalled: "sync (onInstalled d reason allTabs bg) = initialize d (sync bg) (sync bg)"
  by (simp add: onInstalled_def Let_def)

text \<open>
  The handler of \<^verbatim>\<open>src/background.ts\<close> writes the default of a key exactly when the key
  has no stored value, and leaves every stored value as it is.
\<close>

lemma onInstalled_textSize:
  "textSize (sync (onInstalled d reason allTabs bg)) =
     (case textSize (sync bg) of None \<Rightarrow> Some (defaultTextSize d) | Some v \<Rightarrow> Some v)"
  by (simp add: sync_onInstalled initialize_def writeIf_apply [of textSize] split: option.splits)

lemma onInstalled_lineHeight:
  "lineHeight (sync (onInstalled d reason allTabs bg)) =
     (case lineHeight (sync bg) of None \<Rightarrow> Some (defaultLineHeight d) | Some v \<Rightarrow> Some v)"
  by (simp add: sync_onInstalled initialize_def writeIf_apply [of lineHeight] split: option.splits)

lemma onInstalled_onOff:
  "onOff (sync (onInstalled d reason allTabs bg)) =
     (case onOff (sync bg) of None \<Rightarrow> Some True | Some v \<Rightarrow> Some v)"
  by (simp add: sync_onInstalled initialize_def writeIf_apply [of onOff] split: option.splits)

lemma onInstalled_font:
  "font (sync (onInstalled d reason allTabs bg)) =
     (case font (sync bg) of None \<Rightarrow> Some (defaultFont d) | Some v \<Rightarrow> Some v)"
  by (simp add: sync_onInstalled initialize_def writeIf_apply [of font] split: option.splits)

lemma onInstalled_whitelisted:
  "whitelisted (sync (onInstalled d reason allTabs bg)) =
     (case whitelisted (sync bg) of None \<Rightarrow> Some [] | Some v \<Rightarrow> Some v)"
  by (simp add: sync_onInstalled initialize_def writeIf_apply [of whitelisted] split: option.splits)

lemma onInstalled_customSettings:
  "customSettings (sync (onInstalled d reason allTabs bg)) =
     (case customSettings (sync bg) of None \<Rightarrow> Some [] | Some v \<Rightarrow> Some v)"
  by (simp add: sync_onInstalled initialize_def writeIf_apply [of customSettings] split: option.splits)

lemma onInstalled_customFonts:
  "customFonts (sync (onInstalled d reason allTabs bg)) =
     (case customFonts (sync bg) of None \<Rightarrow> Some [] | Some v \<Rightarrow> Some v)"
  by (simp add: sync_onInstalled initialize_def writeIf_apply [of customFonts] split: option.splits)

text \<open>The handler of \<^verbatim>\<open>part_000\<close> writes the default of a key whenever its value is falsy.\<close>

lemma onInstalled_part_000_textSize:
  "textSize (fst (onInstalled_part_000 d (st, fonts))) =
     (if falsyNumber (textSize st) then Some (defaultTextSize d) else textSize st)"
  by (simp add: onInstalled_part_000_def initialize_part_000_def writeIf_apply [of textSize])

lemma onInstalled_part_000_onOff:
  "onOff (fst (onInstalled_part_000 d (st, fonts))) =
     (if falsyBoolean (onOff st) then Some True else onOff st)"
  by (simp add: onInstalled_part_000_def initialize_part_000_def writeIf_apply [of onOff])

lemma onInstalled_part_000_font:
  "font (fst (onInstalled_part_000 d (st, fonts))) =
     (if falsyString (font st) then Some (defaultFont d) else font st)"
  by (simp add: onInstalled_part_000_def initialize_part_000_def writeIf_apply [of font])

text \<open>
  Claim C10. The install/update handler initialises only the settings that have no
  stored value; a stored value, \<open>onOff = false\<close> included, is left unchanged.
  The handler of \<^verbatim>\<open>src/background.ts\<close> does so (the seven lemmas above). The handler of
  \<^verbatim>\<open>part_000\<close> does not: on a store where the user has switched the extension off it
  writes \<open>onOff = true\<close>, where the handler of \<^verbatim>\<open>src/background.ts\<close> keeps \<open>false\<close>.
  It also replaces a stored text size of 0 and a stored empty font name.
\<close>

theorem onInstalled_part_000_overwrites_onOff:
  "onOff (fst (onInstalled_part_000 d (st\<lparr>onOff := Some False\<rparr>, fonts))) = Some True \<and>
   onOff (sync (onInstalled d reason allTabs (bg\<lparr>sync := st\<lparr>onOff := Some False\<rparr>\<rparr>))) = Some False \<and>
   textSize (fst (onInstalled_part_000 d (st\<lparr>textSize := Some 0\<rparr>, fonts))) = Some (defaultTextSize d) \<and>
   font (fst (onInstalled_part_000 d (st\<lparr>font := Some []\<rparr>, fonts))) = Some (defaultFont d)"
  unfolding onInstalled_part_000_onOff onInstalled_part_000_textSize onInstalled_part_000_font
    onInstalled_onOff
  by (simp add: falsyNumber_def falsyBoolean_def falsyString_def)

end
